theory Spec2Isabelle
  imports Main
begin

section \<open>Python text\<close>

text \<open>
  A Python \<open>str\<close> is a sequence of Unicode code points, and \<open>len\<close> counts code points.
  The emoji classes of the title cleaner lie far above U+00FF, so text is modelled as a
  list of code points rather than as a list of 8-bit characters. Literals of the source
  are written \<open>str ''...''\<close>.
\<close>

type_synonym pystr = "nat list"

definition str :: "string \<Rightarrow> pystr" where
  "str s = map of_char s"

text \<open>
  \<open>str.isspace\<close>, the class that \<open>str.split()\<close> and \<open>str.strip()\<close> (both without
  argument) treat as whitespace: TAB..CR, FS..US, SPACE, NEL, NBSP, U+1680, U+2000..U+200A,
  U+2028, U+2029, U+202F, U+205F, U+3000.
\<close>

definition is_space :: "nat \<Rightarrow> bool" where
  "is_space c \<longleftrightarrow>
     (9 \<le> c \<and> c \<le> 13) \<or> (28 \<le> c \<and> c \<le> 32) \<or> c = 133 \<or> c = 160 \<or> c = 5760 \<or>
     (8192 \<le> c \<and> c \<le> 8202) \<or> c = 8232 \<or> c = 8233 \<or> c = 8239 \<or> c = 8287 \<or> c = 12288"

definition non_space :: "nat \<Rightarrow> bool" where
  "non_space c \<longleftrightarrow> \<not> is_space c"

text \<open>\<open>s.strip()\<close>: whitespace removed at both ends.\<close>

definition strip :: "pystr \<Rightarrow> pystr" where
  "strip s = rev (dropWhile is_space (rev (dropWhile is_space s)))"

text \<open>\<open>s.split()\<close>: the maximal runs of non-whitespace, in order.\<close>

function py_split :: "pystr \<Rightarrow> pystr list" where
  "py_split s =
     (let t = dropWhile is_space s
      in if t = [] then []
         else takeWhile non_space t # py_split (dropWhile non_space t))"
  by pat_completeness auto
termination
proof (relation "measure length")
  show "wf (measure length)" by simp
next
  fix s t :: pystr
  assume t: "t = dropWhile is_space s" and ne: "t \<noteq> []"
  from ne obtain c cs where tc: "t = c # cs" by (cases t) auto
  have "length (dropWhile non_space cs) \<le> length cs"
    by (rule length_dropWhile_le)
  moreover have "non_space c"
  proof -
    have "dropWhile is_space s \<noteq> []" using t ne by simp
    then have "\<not> is_space (hd (dropWhile is_space s))" by (rule hd_dropWhile)
    moreover have "hd (dropWhile is_space s) = c" using t tc by (metis list.sel(1))
    ultimately show ?thesis by (simp add: non_space_def)
  qed
  ultimately have "length (dropWhile non_space t) < length t"
    using tc by simp
  moreover have "length t \<le> length s"
    unfolding t by (rule length_dropWhile_le)
  ultimately show "(dropWhile non_space t, s) \<in> measure length" by simp
qed

text \<open>\<open>' '.join(ws)\<close>.\<close>

fun join_space :: "pystr list \<Rightarrow> pystr" where
  "join_space [] = []"
| "join_space [w] = w"
| "join_space (w # v # ws) = w @ 32 # join_space (v # ws)"

text \<open>\<open>s.startswith(p)\<close> and \<open>p in s\<close>.\<close>

fun startswith :: "pystr \<Rightarrow> pystr \<Rightarrow> bool" where
  "startswith s [] = True"
| "startswith [] (p # ps) = False"
| "startswith (c # cs) (p # ps) = (c = p \<and> startswith cs ps)"

fun contains :: "pystr \<Rightarrow> pystr \<Rightarrow> bool" where
  "contains [] p = (p = [])"
| "contains (c # cs) p = (startswith (c # cs) p \<or> contains cs p)"

section \<open>The title cleaner of the Instagram strategy\<close>

text \<open>
  \<open>re.sub(m + r'\w+', '', s)\<close> for a marker character \<open>m\<close> (\<open>#\<close> or \<open>@\<close>): scanning from
  the left, a marker followed by at least one word character is deleted together with the
  maximal run of word characters after it; every other character is kept. The class
  \<open>\w\<close> of the regular-expression library is the parameter \<open>W\<close>.
\<close>

function strip_tokens :: "(nat \<Rightarrow> bool) \<Rightarrow> nat \<Rightarrow> pystr \<Rightarrow> pystr" where
  "strip_tokens W m [] = []"
| "strip_tokens W m (c # cs) =
     (if c = m \<and> cs \<noteq> [] \<and> W (hd cs) then strip_tokens W m (dropWhile W cs)
      else c # strip_tokens W m cs)"
  by pat_completeness auto
termination
  by (relation "measure (\<lambda>(W, m, s). length s)")
     (auto simp: less_Suc_eq_le length_dropWhile_le)

text \<open>The character class of \<open>emoji_pattern\<close>; the pattern deletes every member.\<close>

definition emoji :: "nat \<Rightarrow> bool" where
  "emoji c \<longleftrightarrow>
     (0x1F600 \<le> c \<and> c \<le> 0x1F64F) \<or> (0x1F300 \<le> c \<and> c \<le> 0x1F5FF) \<or>
     (0x1F680 \<le> c \<and> c \<le> 0x1F6FF) \<or> (0x1F1E0 \<le> c \<and> c \<le> 0x1F1FF) \<or>
     (0x2702 \<le> c \<and> c \<le> 0x27B0) \<or> (0x24C2 \<le> c \<and> c \<le> 0x1F251)"

text \<open>\<open>re.sub(r'\.{2,}', '', s)\<close>: every maximal run of two or more periods is deleted.\<close>

function strip_dots :: "pystr \<Rightarrow> pystr" where
  "strip_dots [] = []"
| "strip_dots (c # cs) =
     (if c = 46 \<and> cs \<noteq> [] \<and> hd cs = 46 then strip_dots (dropWhile (\<lambda>x. x = 46) cs)
      else c # strip_dots cs)"
  by pat_completeness auto
termination
  by (relation "measure length") (auto simp: less_Suc_eq_le length_dropWhile_le)

text \<open>
  Lines 79 to 97 of \<open>_clean_instagram_title\<close>: the five substitutions, in the order of the
  source. The specification calls this pipeline \<open>strip_social_noise\<close>.
\<close>

definition strip_social_noise :: "(nat \<Rightarrow> bool) \<Rightarrow> pystr \<Rightarrow> pystr" where
  "strip_social_noise W caption =
     (let text1 = strip_tokens W 35 caption;
          text2 = strip_tokens W 64 text1;
          text3 = filter (\<lambda>c. \<not> emoji c) text2;
          text4 = strip_dots text3
      in join_space (py_split text4))"

text \<open>\<open>_clean_instagram_title\<close> on a \<open>str\<close> argument.\<close>

definition clean_title :: "(nat \<Rightarrow> bool) \<Rightarrow> pystr \<Rightarrow> pystr" where
  "clean_title W caption =
     (if caption = [] then str ''Instagram Post''
      else
        let t = strip_social_noise W caption;
            first_sentence = takeWhile (\<lambda>c. c \<noteq> 46) t
        in if 46 \<in> set t \<and> length first_sentence \<le> 60 then strip first_sentence @ [46]
           else if t \<noteq> [] then strip (take 60 t)
           else str ''Instagram Post'')"

section \<open>Python values, exceptions and the library\<close>

text \<open>
  The values that reach a result: what \<open>json.loads\<close> and \<open>response.json()\<close> build, and
  the strings and booleans of the source. A dict is an association list in insertion
  order. Of a number the code only asks whether it is zero, so integers stand for all
  JSON numbers.
\<close>

datatype pyval =
    PNone
  | PBool bool
  | PInt int
  | PStr pystr
  | PList "pyval list"
  | PDict "(pystr \<times> pyval) list"

text \<open>Truth value testing (\<open>if v\<close>, \<open>not v\<close>).\<close>

fun truthy :: "pyval \<Rightarrow> bool" where
  "truthy PNone = False"
| "truthy (PBool b) = b"
| "truthy (PInt i) = (i \<noteq> 0)"
| "truthy (PStr s) = (s \<noteq> [])"
| "truthy (PList xs) = (xs \<noteq> [])"
| "truthy (PDict kvs) = (kvs \<noteq> [])"

text \<open>The exceptions that can leave the functions of \<open>content_extractor.py\<close>.\<close>

datatype exn = KeyError | TypeError | UnboundLocalError

text \<open>
  Standard-library and third-party functions the code calls, whose tables (the Unicode
  database, the HTML entity table, the URL grammar) are not part of the repository. They
  are parameters of the model:
  \<^item> \<open>urlparse\<close>: the \<open>scheme\<close> and \<open>netloc\<close> of \<open>urllib.parse.urlparse(url)\<close>, \<open>None\<close>
    when it raises;
  \<^item> \<open>str_lower\<close>: \<open>str.lower\<close>;
  \<^item> \<open>word_char\<close>: the class \<open>\w\<close> of \<open>re\<close> on \<open>str\<close> patterns;
  \<^item> \<open>html_unescape\<close>: \<open>html.unescape\<close>;
  \<^item> \<open>url_quote\<close>: \<open>urllib.parse.quote\<close>;
  \<^item> \<open>sub_attribution\<close>: \<open>re.sub\<close> of the trailing-attribution pattern
    (em dash, name, \<open>(@handle)\<close>, month, day, year) by the empty string;
  \<^item> \<open>py_repr\<close>: what an f-string prints for a value that is not a \<open>str\<close>.
\<close>

record pylib =
  urlparse :: "pystr \<Rightarrow> (pystr \<times> pystr) option"
  str_lower :: "pystr \<Rightarrow> pystr"
  word_char :: "nat \<Rightarrow> bool"
  html_unescape :: "pystr \<Rightarrow> pystr"
  url_quote :: "pystr \<Rightarrow> pystr"
  sub_attribution :: "pystr \<Rightarrow> pystr"
  py_repr :: "pyval \<Rightarrow> pystr"

text \<open>\<open>f'{v}'\<close>: a \<open>str\<close> is printed as it is.\<close>

definition fstr :: "pylib \<Rightarrow> pyval \<Rightarrow> pystr" where
  "fstr lib v = (case v of PStr s \<Rightarrow> s | _ \<Rightarrow> py_repr lib v)"

section \<open>config.py\<close>

text \<open>\<open>Config.PLATFORM_PATTERNS\<close>, in the insertion order that iteration follows.\<close>

definition PLATFORM_PATTERNS :: "(pystr \<times> pystr list) list" where
  "PLATFORM_PATTERNS =
     [(str ''instagram'', [str ''instagram.com'', str ''instagr.am'']),
      (str ''twitter'', [str ''twitter.com'', str ''x.com'']),
      (str ''facebook'', [str ''facebook.com'', str ''fb.com'']),
      (str ''youtube'', [str ''youtube.com'', str ''youtu.be'']),
      (str ''tiktok'', [str ''tiktok.com'']),
      (str ''linkedin'', [str ''linkedin.com'']),
      (str ''reddit'', [str ''reddit.com'', str ''redd.it'']),
      (str ''pinterest'', [str ''pinterest.com'', str ''pin.it'']),
      (str ''blog'', [])]"

text \<open>The inner loop of \<open>detect_platform\<close>: does some pattern of the list hit?\<close>

fun any_pattern :: "pystr list \<Rightarrow> pystr \<Rightarrow> bool" where
  "any_pattern [] url_lower = False"
| "any_pattern (pattern # patterns) url_lower =
     (if contains url_lower pattern then True else any_pattern patterns url_lower)"

text \<open>The outer loop, returning at the first hit, and \<open>'blog'\<close> after the loop.\<close>

fun scan_platforms :: "(pystr \<times> pystr list) list \<Rightarrow> pystr \<Rightarrow> pystr" where
  "scan_platforms [] url_lower = str ''blog''"
| "scan_platforms ((platform, patterns) # rest) url_lower =
     (if any_pattern patterns url_lower then platform else scan_platforms rest url_lower)"

definition detect_platform :: "pylib \<Rightarrow> pystr \<Rightarrow> pystr" where
  "detect_platform lib url = scan_platforms PLATFORM_PATTERNS (str_lower lib url)"

text \<open>\<open>is_valid_url\<close>: \<open>all([result.scheme, result.netloc])\<close>, and \<open>False\<close> on any exception.\<close>

definition is_valid_url :: "pylib \<Rightarrow> pystr \<Rightarrow> bool" where
  "is_valid_url lib url =
     (case urlparse lib url of
        None \<Rightarrow> False
      | Some (scheme, netloc) \<Rightarrow> scheme \<noteq> [] \<and> netloc \<noteq> [])"

section \<open>The network and parsed documents\<close>

text \<open>
  A \<open><meta>\<close> tag that \<open>soup.find\<close> returned is its \<open>content\<close> attribute, \<open>None\<close> when the
  tag has none. A tag object is always true in a condition.
\<close>

type_synonym meta = "pystr option"

text \<open>
  A parsed page (\<open>BeautifulSoup(response.content, 'html.parser')\<close>), as the answers to
  the queries the strategies make:
  \<^item> \<open>og_title\<close>, \<open>og_description\<close>, \<open>og_image\<close>: \<open>soup.find('meta', property=...)\<close>;
  \<^item> \<open>name_description\<close>, \<open>name_author\<close>: \<open>soup.find('meta', attrs={'name': ...})\<close>;
  \<^item> \<open>title_tag\<close>: \<open>soup.find('title')\<close> and, inside, its \<open>.string\<close>;
  \<^item> \<open>article_paragraphs\<close>: for \<open>soup.find('article') or soup.find('main')\<close>, the
    \<open>get_text(strip=True)\<close> of each of its \<open>p\<close> elements;
  \<^item> \<open>shared_data\<close>: what \<open>json.loads\<close> returns on the blob after
    \<open>'window._sharedData = '\<close> up to the first \<open>;\<close> in the first script that mentions
    \<open>window._sharedData\<close>; \<open>None\<close> when there is no such script or when finding or
    parsing the blob raises (inside the \<open>try\<close>);
  \<^item> \<open>initial_state\<close>: the \<open>.string\<close> of the first script that mentions
    \<open>window.__INITIAL_STATE__\<close>.
\<close>

record soup =
  og_title :: "meta option"
  og_description :: "meta option"
  og_image :: "meta option"
  name_description :: "meta option"
  name_author :: "meta option"
  title_tag :: "pystr option option"
  article_paragraphs :: "pystr list option"
  shared_data :: "pyval option"
  initial_state :: "pystr option"

text \<open>
  A response of \<open>session.get\<close>: its status code, its body parsed as a page, and its body
  parsed by \<open>response.json()\<close> (\<open>None\<close> when that raises). \<open>RequestException\<close> is a
  transport failure (DNS, refused connection, timeout).
\<close>

record response =
  status_code :: nat
  document :: soup
  json_body :: "pyval option"

datatype http = RequestException | Response response

text \<open>
  The world outside the process: \<open>net w n u\<close> is what the network answers to the \<open>n\<close>-th
  request of the session when it asks for \<open>u\<close>; \<open>requests\<close> counts the requests made and
  \<open>slept\<close> the seconds spent in \<open>time.sleep\<close>.
\<close>

record world =
  net :: "nat \<Rightarrow> pystr \<Rightarrow> http"
  requests :: nat
  slept :: nat

definition session_get :: "pystr \<Rightarrow> world \<Rightarrow> http \<times> world" where
  "session_get url w = (net w (requests w) url, w\<lparr>requests := Suc (requests w)\<rparr>)"

definition sleep1 :: "world \<Rightarrow> world" where
  "sleep1 w = w\<lparr>slept := slept w + 1\<rparr>"

text \<open>
  \<open>_make_request\<close>: \<open>raise_for_status\<close> raises on the codes 400 to 599, and every
  \<open>RequestException\<close> becomes \<open>None\<close>.
\<close>

definition make_request :: "pystr \<Rightarrow> world \<Rightarrow> soup option \<times> world" where
  "make_request url w =
     (case session_get url w of
        (RequestException, w') \<Rightarrow> (None, w')
      | (Response r, w') \<Rightarrow>
          if 400 \<le> status_code r \<and> status_code r < 600 then (None, w')
          else (Some (document r), w'))"

section \<open>Results\<close>

text \<open>The dict a strategy returns, as its items in the order of the dict display.\<close>

type_synonym result = "(string \<times> pyval) list"

definition failure :: "pystr \<Rightarrow> result" where
  "failure msg = [(''success'', PBool False), (''error'', PStr msg)]"

text \<open>\<open>tag['content']\<close> raises \<open>KeyError\<close> when the attribute is absent.\<close>

definition tag_content :: "meta \<Rightarrow> exn + pystr" where
  "tag_content m = (case m of None \<Rightarrow> Inl KeyError | Some s \<Rightarrow> Inr s)"

text \<open>\<open>tag.get('content', '')\<close>.\<close>

definition tag_get :: "meta \<Rightarrow> pystr" where
  "tag_get m = (case m of None \<Rightarrow> [] | Some s \<Rightarrow> s)"

text \<open>\<open>tag['content'] if tag else default\<close>.\<close>

definition content_or :: "meta option \<Rightarrow> pystr \<Rightarrow> exn + pystr" where
  "content_or tag dflt = (case tag of None \<Rightarrow> Inr dflt | Some m \<Rightarrow> tag_content m)"

section \<open>Strategies that read the Open Graph tags only\<close>

text \<open>
  \<open>_extract_facebook\<close>, \<open>_extract_tiktok\<close>, \<open>_extract_linkedin\<close>, \<open>_extract_reddit\<close> and
  \<open>_extract_pinterest\<close> are the same text up to four literals.
\<close>

definition og_result :: "pystr \<Rightarrow> pystr \<Rightarrow> pystr \<Rightarrow> pystr \<Rightarrow> soup \<Rightarrow> exn + result" where
  "og_result platform default_title media url sp =
     (case content_or (og_title sp) default_title of
        Inl e \<Rightarrow> Inl e
      | Inr title \<Rightarrow>
          (case content_or (og_description sp) [] of
             Inl e \<Rightarrow> Inl e
           | Inr caption \<Rightarrow>
               (case content_or (og_image sp) [] of
                  Inl e \<Rightarrow> Inl e
                | Inr image_url \<Rightarrow>
                    Inr [(''success'', PBool True), (''platform'', PStr platform),
                         (''url'', PStr url), (''title'', PStr title),
                         (''caption'', PStr caption), (''image_url'', PStr image_url),
                         (''author'', PStr []), (''media_type'', PStr media)])))"

definition og_strategy ::
  "pystr \<Rightarrow> pystr \<Rightarrow> pystr \<Rightarrow> pystr \<Rightarrow> pystr \<Rightarrow> world \<Rightarrow> (exn + result) \<times> world" where
  "og_strategy fail_msg platform default_title media url w =
     (case make_request url w of
        (None, w') \<Rightarrow> (Inr (failure fail_msg), w')
      | (Some sp, w') \<Rightarrow> (og_result platform default_title media url sp, w'))"

definition extract_facebook :: "pystr \<Rightarrow> world \<Rightarrow> (exn + result) \<times> world" where
  "extract_facebook =
     og_strategy (str ''Failed to fetch Facebook post'') (str ''facebook'')
       (str ''Facebook Post'') (str ''post'')"

definition extract_tiktok :: "pystr \<Rightarrow> world \<Rightarrow> (exn + result) \<times> world" where
  "extract_tiktok =
     og_strategy (str ''Failed to fetch TikTok video'') (str ''tiktok'')
       (str ''TikTok Video'') (str ''video'')"

definition extract_linkedin :: "pystr \<Rightarrow> world \<Rightarrow> (exn + result) \<times> world" where
  "extract_linkedin =
     og_strategy (str ''Failed to fetch LinkedIn post'') (str ''linkedin'')
       (str ''LinkedIn Post'') (str ''post'')"

definition extract_reddit :: "pystr \<Rightarrow> world \<Rightarrow> (exn + result) \<times> world" where
  "extract_reddit =
     og_strategy (str ''Failed to fetch Reddit post'') (str ''reddit'')
       (str ''Reddit Post'') (str ''post'')"

definition extract_pinterest :: "pystr \<Rightarrow> world \<Rightarrow> (exn + result) \<times> world" where
  "extract_pinterest =
     og_strategy (str ''Failed to fetch Pinterest pin'') (str ''pinterest'')
       (str ''Pinterest Pin'') (str ''image'')"

section \<open>YouTube\<close>

text \<open>
  \<open>re.search(p + '([^c]+)', s)\<close> for a literal \<open>p\<close>: the leftmost place where \<open>p\<close> is
  followed by a character of the class; the group is the maximal run of the class there.
  \<open>ok\<close> is the class.
\<close>

fun search_group :: "pystr \<Rightarrow> (nat \<Rightarrow> bool) \<Rightarrow> pystr \<Rightarrow> pystr option" where
  "search_group p ok [] = None"
| "search_group p ok (c # cs) =
     (if startswith (c # cs) p \<and> takeWhile ok (drop (length p) (c # cs)) \<noteq> []
      then Some (takeWhile ok (drop (length p) (c # cs)))
      else search_group p ok cs)"

text \<open>The video id: \<open>v=([^&]+)\<close> on a \<open>youtube.com\<close> URL, else \<open>youtu\.be/([^?]+)\<close>.\<close>

definition video_id_of :: "pystr \<Rightarrow> pystr" where
  "video_id_of url =
     (if contains url (str ''youtube.com'') then
        (case search_group (str ''v='') (\<lambda>c. c \<noteq> 38) url of None \<Rightarrow> [] | Some g \<Rightarrow> g)
      else if contains url (str ''youtu.be'') then
        (case search_group (str ''youtu.be/'') (\<lambda>c. c \<noteq> 63) url of None \<Rightarrow> [] | Some g \<Rightarrow> g)
      else [])"

definition thumbnail :: "pystr \<Rightarrow> pystr" where
  "thumbnail video_id = str ''https://img.youtube.com/vi/'' @ video_id @ str ''/maxresdefault.jpg''"

definition youtube_result :: "pystr \<Rightarrow> soup \<Rightarrow> exn + result" where
  "youtube_result url sp =
     (let video_id = video_id_of url
      in case content_or (og_title sp) (str ''YouTube Video'') of
           Inl e \<Rightarrow> Inl e
         | Inr title \<Rightarrow>
             (case content_or (og_description sp) [] of
                Inl e \<Rightarrow> Inl e
              | Inr caption \<Rightarrow>
                  (case (if video_id \<noteq> [] then Inr (thumbnail video_id)
                         else content_or (og_image sp) []) of
                     Inl e \<Rightarrow> Inl e
                   | Inr image_url \<Rightarrow>
                       Inr [(''success'', PBool True), (''platform'', PStr (str ''youtube'')),
                            (''url'', PStr url), (''title'', PStr title),
                            (''caption'', PStr caption), (''image_url'', PStr image_url),
                            (''video_id'', PStr video_id),
                            (''media_type'', PStr (str ''video''))])))"

definition extract_youtube :: "pystr \<Rightarrow> world \<Rightarrow> (exn + result) \<times> world" where
  "extract_youtube url w =
     (case make_request url w of
        (None, w') \<Rightarrow> (Inr (failure (str ''Failed to fetch YouTube video'')), w')
      | (Some sp, w') \<Rightarrow> (youtube_result url sp, w'))"

section \<open>Instagram\<close>

text \<open>
  Operations on parsed JSON, with \<open>None\<close> for a raised exception: \<open>k in v\<close>, \<open>v[k]\<close> for a
  \<open>str\<close> key, \<open>v[0]\<close>, and \<open>v.get(k, d)\<close>. The keys of a parsed object are distinct, so the
  first binding of the association list is the binding.
\<close>

fun py_in :: "pystr \<Rightarrow> pyval \<Rightarrow> bool option" where
  "py_in k (PDict kvs) = Some (map_of kvs k \<noteq> None)"
| "py_in k (PList xs) = Some (PStr k \<in> set xs)"
| "py_in k (PStr s) = Some (contains s k)"
| "py_in k v = None"

fun subscript :: "pyval \<Rightarrow> pystr \<Rightarrow> pyval option" where
  "subscript (PDict kvs) k = map_of kvs k"
| "subscript v k = None"

fun first_item :: "pyval \<Rightarrow> pyval option" where
  "first_item (PList (x # xs)) = Some x"
| "first_item (PStr (c # cs)) = Some (PStr [c])"
| "first_item v = None"

fun dict_get :: "pyval \<Rightarrow> pystr \<Rightarrow> pyval \<Rightarrow> pyval option" where
  "dict_get (PDict kvs) k d = Some (case map_of kvs k of None \<Rightarrow> d | Some v \<Rightarrow> v)"
| "dict_get v k d = None"

text \<open>
  The condition \<open>'entry_data' in data and 'PostPage' in data['entry_data']\<close> and the
  assignment of \<open>post\<close>; \<open>None\<close> when the condition is false or something raises.
\<close>

definition shared_post :: "pyval \<Rightarrow> pyval option" where
  "shared_post data =
     (case py_in (str ''entry_data'') data of
        Some True \<Rightarrow>
          (case subscript data (str ''entry_data'') of
             None \<Rightarrow> None
           | Some entry \<Rightarrow>
               (case py_in (str ''PostPage'') entry of
                  Some True \<Rightarrow>
                    Option.bind (subscript entry (str ''PostPage'')) (\<lambda>pages.
                    Option.bind (first_item pages) (\<lambda>page.
                    Option.bind (subscript page (str ''graphql'')) (\<lambda>g.
                    subscript g (str ''shortcode_media''))))
                | _ \<Rightarrow> None))
      | _ \<Rightarrow> None)"

definition shared_caption :: "pyval \<Rightarrow> pyval \<Rightarrow> pyval option" where
  "shared_caption post full_caption =
     Option.bind (dict_get post (str ''edge_media_to_caption'') (PDict [])) (\<lambda>m.
     Option.bind (dict_get m (str ''edges'') (PList [PDict []])) (\<lambda>edges.
     Option.bind (first_item edges) (\<lambda>edge.
     Option.bind (dict_get edge (str ''node'') (PDict [])) (\<lambda>node.
     dict_get node (str ''text'') full_caption))))"

definition shared_author :: "pyval \<Rightarrow> pyval option" where
  "shared_author post =
     Option.bind (dict_get post (str ''owner'') (PDict [])) (\<lambda>owner.
     dict_get owner (str ''username'') (PStr []))"

text \<open>
  The \<open>try\<close> block: the caption and the author after it. An exception leaves what was
  assigned before it, so the caption can change while the author stays empty.
\<close>

definition enrich :: "soup \<Rightarrow> pyval \<Rightarrow> pyval \<times> pyval" where
  "enrich sp full_caption =
     (case shared_data sp of
        None \<Rightarrow> (full_caption, PStr [])
      | Some data \<Rightarrow>
          (case shared_post data of
             None \<Rightarrow> (full_caption, PStr [])
           | Some post \<Rightarrow>
               (case shared_caption post full_caption of
                  None \<Rightarrow> (full_caption, PStr [])
                | Some caption \<Rightarrow>
                    (case shared_author post of
                       None \<Rightarrow> (caption, PStr [])
                     | Some author \<Rightarrow> (caption, author)))))"

text \<open>
  \<open>_clean_instagram_title\<close> on any value: a false value gives the default label, and
  \<open>re.sub\<close> raises \<open>TypeError\<close> on a true value that is not a \<open>str\<close>.
\<close>

definition clean_instagram_title :: "pylib \<Rightarrow> pyval \<Rightarrow> exn + pystr" where
  "clean_instagram_title lib caption =
     (if \<not> truthy caption then Inr (str ''Instagram Post'')
      else case caption of
             PStr s \<Rightarrow> Inr (clean_title (word_char lib) s)
           | _ \<Rightarrow> Inl TypeError)"

definition instagram_result :: "pylib \<Rightarrow> pystr \<Rightarrow> soup \<Rightarrow> exn + result" where
  "instagram_result lib url sp =
     (case content_or (og_description sp) [] of
        Inl e \<Rightarrow> Inl e
      | Inr full_caption \<Rightarrow>
          (case content_or (og_image sp) [] of
             Inl e \<Rightarrow> Inl e
           | Inr image_url \<Rightarrow>
               (case enrich sp (PStr full_caption) of
                  (caption, author) \<Rightarrow>
                    (case clean_instagram_title lib caption of
                       Inl e \<Rightarrow> Inl e
                     | Inr title \<Rightarrow>
                         Inr [(''success'', PBool True), (''platform'', PStr (str ''instagram'')),
                              (''url'', PStr url), (''title'', PStr title),
                              (''caption'', caption), (''image_url'', PStr image_url),
                              (''author'', author), (''media_type'', PStr (str ''post''))]))))"

definition extract_instagram :: "pylib \<Rightarrow> pystr \<Rightarrow> world \<Rightarrow> (exn + result) \<times> world" where
  "extract_instagram lib url w =
     (case make_request url w of
        (None, w') \<Rightarrow> (Inr (failure (str ''Failed to fetch Instagram post'')), w')
      | (Some sp, w') \<Rightarrow> (instagram_result lib url sp, w'))"

section \<open>Twitter\<close>

text \<open>
  \<open>re.sub(r'<[^>]+>', '', s)\<close>: a \<open><\<close> followed by at least one character other than \<open>>\<close>
  and then a \<open>>\<close> is deleted up to that \<open>>\<close>.
\<close>

function strip_tags :: "pystr \<Rightarrow> pystr" where
  "strip_tags [] = []"
| "strip_tags (c # cs) =
     (if c = 60 \<and> takeWhile (\<lambda>x. x \<noteq> 62) cs \<noteq> [] \<and> dropWhile (\<lambda>x. x \<noteq> 62) cs \<noteq> []
      then strip_tags (tl (dropWhile (\<lambda>x. x \<noteq> 62) cs))
      else c # strip_tags cs)"
  by pat_completeness auto
termination
proof (relation "measure length")
  show "wf (measure length)" by simp
next
  fix c :: nat and cs :: pystr
  have "length (tl (dropWhile (\<lambda>x. x \<noteq> 62) cs)) \<le> length (dropWhile (\<lambda>x. x \<noteq> 62) cs)"
    by simp
  also have "\<dots> \<le> length cs" by (rule length_dropWhile_le)
  finally show "(tl (dropWhile (\<lambda>x. x \<noteq> 62) cs), c # cs) \<in> measure length" by simp
next
  fix c :: nat and cs :: pystr
  show "(cs, c # cs) \<in> measure length" by simp
qed

text \<open>\<open>f'Tweet by {author}' if author else 'Twitter Post'\<close>.\<close>

definition tweet_title :: "pylib \<Rightarrow> pyval \<Rightarrow> pystr" where
  "tweet_title lib author =
     (if truthy author then str ''Tweet by '' @ fstr lib author else str ''Twitter Post'')"

text \<open>
  The oEmbed attempt, from the response on: \<open>None\<close> when the status is not 200 or
  anything in the \<open>try\<close> raises (a transport failure, a body that is not JSON, a JSON value
  without \<open>get\<close>, an \<open>html\<close> field that is not a \<open>str\<close>).
\<close>

definition oembed_result :: "pylib \<Rightarrow> pystr \<Rightarrow> http \<Rightarrow> result option" where
  "oembed_result lib url h =
     (case h of
        RequestException \<Rightarrow> None
      | Response r \<Rightarrow>
          if status_code r \<noteq> 200 then None
          else
            Option.bind (json_body r) (\<lambda>oembed_data.
            Option.bind (dict_get oembed_data (str ''html'') (PStr [])) (\<lambda>html_content.
            Option.bind (dict_get oembed_data (str ''author_name'') (PStr [])) (\<lambda>author.
              case html_content of
                PStr html \<Rightarrow>
                  Some [(''success'', PBool True), (''platform'', PStr (str ''twitter'')),
                        (''url'', PStr url), (''title'', PStr (tweet_title lib author)),
                        (''caption'',
                           PStr (strip (sub_attribution lib
                                   (html_unescape lib (strip (strip_tags html)))))),
                        (''image_url'', PStr []), (''author'', author),
                        (''media_type'', PStr (str ''tweet''))]
              | _ \<Rightarrow> None))))"

text \<open>
  \<open>re.search(p + '([^"]+)"', s)\<close> for a literal \<open>p\<close>: the group must be non-empty and closed
  by a double quote.
\<close>

fun search_quoted :: "pystr \<Rightarrow> pystr \<Rightarrow> pystr option" where
  "search_quoted p [] = None"
| "search_quoted p (c # cs) =
     (if startswith (c # cs) p \<and> takeWhile (\<lambda>x. x \<noteq> 34) (drop (length p) (c # cs)) \<noteq> [] \<and>
         dropWhile (\<lambda>x. x \<noteq> 34) (drop (length p) (c # cs)) \<noteq> []
      then Some (takeWhile (\<lambda>x. x \<noteq> 34) (drop (length p) (c # cs)))
      else search_quoted p cs)"

text \<open>\<open>s.replace('\\n', '\n')\<close>: a backslash followed by \<open>n\<close> becomes a line feed.\<close>

fun unescape_newlines :: "pystr \<Rightarrow> pystr" where
  "unescape_newlines [] = []"
| "unescape_newlines [c] = [c]"
| "unescape_newlines (c # d # cs) =
     (if c = 92 \<and> d = 110 then 10 # unescape_newlines cs
      else c # unescape_newlines (d # cs))"

text \<open>
  The page attempt on a fetched page: \<open>None\<close> when the caption is empty and control
  falls through to the fallback.
\<close>

definition page_result :: "pylib \<Rightarrow> pystr \<Rightarrow> soup \<Rightarrow> (exn + result) option" where
  "page_result lib url sp =
     (let description = (case og_description sp of None \<Rightarrow> name_description sp | Some m \<Rightarrow> Some m);
          caption0 = (case description of None \<Rightarrow> [] | Some m \<Rightarrow> html_unescape lib (tag_get m));
          script = (case initial_state sp of None \<Rightarrow> [] | Some s \<Rightarrow> s);
          caption = (case search_quoted (34 # str ''text'' @ [34, 58, 34]) script of
                       None \<Rightarrow> caption0 | Some g \<Rightarrow> unescape_newlines g);
          author = (case search_quoted (34 # str ''screen_name'' @ [34, 58, 34]) script of
                      None \<Rightarrow> [] | Some g \<Rightarrow> g)
      in if caption = [] then None
         else Some
           (case (case og_title sp of
                    None \<Rightarrow> Inr (tweet_title lib (PStr author))
                  | Some m \<Rightarrow> tag_content m) of
              Inl e \<Rightarrow> Inl e
            | Inr title \<Rightarrow>
                (case content_or (og_image sp) [] of
                   Inl e \<Rightarrow> Inl e
                 | Inr image_url \<Rightarrow>
                     Inr [(''success'', PBool True), (''platform'', PStr (str ''twitter'')),
                          (''url'', PStr url), (''title'', PStr title),
                          (''caption'', PStr (strip (sub_attribution lib caption))),
                          (''image_url'', PStr image_url), (''author'', PStr author),
                          (''media_type'', PStr (str ''tweet''))])))"

text \<open>The fallback: the author from \<open>twitter\.com/([^/]+)\<close>, and placeholders.\<close>

definition url_author :: "pystr \<Rightarrow> pystr" where
  "url_author url =
     (case search_group (str ''twitter.com/'') (\<lambda>c. c \<noteq> 47) url of None \<Rightarrow> [] | Some g \<Rightarrow> g)"

definition twitter_fallback :: "pylib \<Rightarrow> pystr \<Rightarrow> result" where
  "twitter_fallback lib url =
     (let author = url_author url
      in [(''success'', PBool True), (''platform'', PStr (str ''twitter'')),
          (''url'', PStr url), (''title'', PStr (tweet_title lib (PStr author))),
          (''caption'',
             PStr (if author \<noteq> [] then str ''Tweet by '' @ author @ [32, 8212] @ str '' click to view''
                   else str ''Twitter Post '' @ [8212] @ str '' click to view'')),
          (''image_url'', PStr []), (''author'', PStr author),
          (''media_type'', PStr (str ''tweet''))])"

definition extract_twitter :: "pylib \<Rightarrow> pystr \<Rightarrow> world \<Rightarrow> (exn + result) \<times> world" where
  "extract_twitter lib url w =
     (case session_get (str ''https://publish.twitter.com/oembed?url='' @ url_quote lib url) w of
        (h, w1) \<Rightarrow>
          (case oembed_result lib url h of
             Some r \<Rightarrow> (Inr r, w1)
           | None \<Rightarrow>
               (case make_request url w1 of
                  (None, w2) \<Rightarrow> (Inr (twitter_fallback lib url), w2)
                | (Some sp, w2) \<Rightarrow>
                    (case page_result lib url sp of
                       None \<Rightarrow> (Inr (twitter_fallback lib url), w2)
                     | Some r \<Rightarrow> (r, w2)))))"

section \<open>Generic pages\<close>

text \<open>
  \<open>_extract_generic\<close>. The variable \<open>title\<close> ends as a \<open>str\<close> or as \<open>None\<close> (the \<open>.string\<close> of
  a \<open>title\<close> element with no single text child), hence the option.
\<close>

definition generic_result :: "pystr \<Rightarrow> soup \<Rightarrow> exn + result" where
  "generic_result url sp =
     (case (case title_tag sp of
              None \<Rightarrow>
                (case content_or (og_title sp) (str ''Untitled'') of
                   Inl e \<Rightarrow> Inl e
                 | Inr t \<Rightarrow> Inr (Some t))
            | Some string \<Rightarrow> Inr string) of
        Inl e \<Rightarrow> Inl e
      | Inr title \<Rightarrow>
          (case (case name_description sp of
                   None \<Rightarrow> content_or (og_description sp) []
                 | Some m \<Rightarrow> Inr (tag_get m)) of
             Inl e \<Rightarrow> Inl e
           | Inr description \<Rightarrow>
               (case content_or (og_image sp) [] of
                  Inl e \<Rightarrow> Inl e
                | Inr image_url \<Rightarrow>
                    (let author = (case name_author sp of None \<Rightarrow> [] | Some m \<Rightarrow> tag_get m);
                         main_content =
                           (case article_paragraphs sp of
                              None \<Rightarrow> []
                            | Some paragraphs \<Rightarrow> join_space (take 5 paragraphs))
                     in Inr [(''success'', PBool True), (''platform'', PStr (str ''blog'')),
                             (''url'', PStr url),
                             (''title'',
                                PStr (case title of
                                        None \<Rightarrow> str ''Untitled''
                                      | Some t \<Rightarrow> if t \<noteq> [] then strip t else str ''Untitled'')),
                             (''caption'',
                                PStr (if description \<noteq> [] then strip description
                                      else take 500 main_content)),
                             (''image_url'', PStr image_url), (''author'', PStr author),
                             (''media_type'', PStr (str ''article''))]))))"

definition extract_generic :: "pystr \<Rightarrow> world \<Rightarrow> (exn + result) \<times> world" where
  "extract_generic url w =
     (case make_request url w of
        (None, w') \<Rightarrow> (Inr (failure (str ''Failed to fetch webpage'')), w')
      | (Some sp, w') \<Rightarrow> (generic_result url sp, w'))"

section \<open>The dispatcher and the retry wrapper\<close>

text \<open>
  The dict \<open>extractors\<close> of the method \<open>extract\<close>, and the method (primed: the plain name
  is a keyword of Isabelle).
\<close>

definition extractors ::
  "pylib \<Rightarrow> (pystr \<times> (pystr \<Rightarrow> world \<Rightarrow> (exn + result) \<times> world)) list" where
  "extractors lib =
     [(str ''instagram'', extract_instagram lib),
      (str ''twitter'', extract_twitter lib),
      (str ''facebook'', extract_facebook),
      (str ''youtube'', extract_youtube),
      (str ''tiktok'', extract_tiktok),
      (str ''linkedin'', extract_linkedin),
      (str ''reddit'', extract_reddit),
      (str ''pinterest'', extract_pinterest)]"

definition extract' :: "pylib \<Rightarrow> pystr \<Rightarrow> world \<Rightarrow> (exn + result) \<times> world" where
  "extract' lib url w =
     (if \<not> is_valid_url lib url then (Inr (failure (str ''Invalid URL format'')), w)
      else
        (case map_of (extractors lib) (detect_platform lib url) of
           None \<Rightarrow> extract_generic url w
         | Some extractor \<Rightarrow> extractor url w))"

text \<open>\<open>result.get('success')\<close> as a condition.\<close>

definition get_success :: "result \<Rightarrow> bool" where
  "get_success r = (case map_of r ''success'' of None \<Rightarrow> False | Some v \<Rightarrow> truthy v)"

text \<open>
  The loop of \<open>extract_with_retry\<close> from iteration \<open>attempt\<close> on. \<open>bound\<close> is the variable
  \<open>result\<close>, \<open>None\<close> while it is unbound: \<open>return result\<close> after the loop then raises
  \<open>UnboundLocalError\<close>. The method \<open>self.extract\<close> is the parameter \<open>ext\<close> and
  \<open>time.sleep(1)\<close> the parameter \<open>slp\<close>, so that the wrapper also runs against a stub
  dispatcher; an exception of the dispatcher leaves the loop.
\<close>

function retry_loop ::
  "(pystr \<Rightarrow> 'w \<Rightarrow> (exn + result) \<times> 'w) \<Rightarrow> ('w \<Rightarrow> 'w) \<Rightarrow> pystr \<Rightarrow> int \<Rightarrow> int \<Rightarrow>
   result option \<Rightarrow> 'w \<Rightarrow> (exn + result) \<times> 'w" where
  "retry_loop ext slp url max_retries attempt bound w =
     (if attempt < max_retries then
        (case fst (ext url w) of
           Inl e \<Rightarrow> (Inl e, snd (ext url w))
         | Inr result \<Rightarrow>
             if get_success result then (Inr result, snd (ext url w))
             else retry_loop ext slp url max_retries (attempt + 1) (Some result)
                    (if attempt < max_retries - 1 then slp (snd (ext url w))
                     else snd (ext url w)))
      else (case bound of None \<Rightarrow> (Inl UnboundLocalError, w) | Some result \<Rightarrow> (Inr result, w)))"
  by pat_completeness auto
termination
  by (relation "measure (\<lambda>(ext, slp, url, max_retries, attempt, bound, w). nat (max_retries - attempt))")
     auto

definition extract_with_retry ::
  "(pystr \<Rightarrow> 'w \<Rightarrow> (exn + result) \<times> 'w) \<Rightarrow> ('w \<Rightarrow> 'w) \<Rightarrow> pystr \<Rightarrow> int \<Rightarrow> 'w \<Rightarrow>
   (exn + result) \<times> 'w" where
  "extract_with_retry ext slp url max_retries w = retry_loop ext slp url max_retries 0 None w"

text \<open>The module-level functions: the singleton's methods.\<close>

definition extract_content :: "pylib \<Rightarrow> pystr \<Rightarrow> world \<Rightarrow> (exn + result) \<times> world" where
  "extract_content lib url w = extract' lib url w"

definition extract_content_with_retry ::
  "pylib \<Rightarrow> pystr \<Rightarrow> int \<Rightarrow> world \<Rightarrow> (exn + result) \<times> world" where
  "extract_content_with_retry lib url max_retries w =
     extract_with_retry (extract' lib) sleep1 url max_retries w"

section \<open>A library instance for ASCII inputs\<close>

text \<open>
  To run the model on concrete inputs the library parameters need values. \<open>ascii_lib\<close>
  agrees with the Python library on the inputs of the examples below: text made of
  printable ASCII characters, with no ampersand (so \<open>html.unescape\<close> changes nothing), no
  em dash (so the attribution pattern does not match), and URLs without brackets.
  \<open>ascii_urlparse\<close> follows \<open>urllib.parse.urlsplit\<close>: the scheme is the text before the
  first colon when that text is non-empty, starts with a letter and consists of letters,
  digits, \<open>+\<close>, \<open>-\<close> and \<open>.\<close>; the netloc is what follows \<open>//\<close> up to the first \<open>/\<close>, \<open>?\<close>
  or \<open>#\<close>. \<open>ascii_quote\<close> keeps letters, digits and \<open>_.-~/\<close> and percent-encodes the rest.
  No example prints a value that is not a \<open>str\<close>.
\<close>

definition ascii_alpha :: "nat \<Rightarrow> bool" where
  "ascii_alpha c \<longleftrightarrow> (65 \<le> c \<and> c \<le> 90) \<or> (97 \<le> c \<and> c \<le> 122)"

definition ascii_alnum :: "nat \<Rightarrow> bool" where
  "ascii_alnum c \<longleftrightarrow> ascii_alpha c \<or> (48 \<le> c \<and> c \<le> 57)"

definition ascii_word :: "nat \<Rightarrow> bool" where
  "ascii_word c \<longleftrightarrow> ascii_alnum c \<or> c = 95"

definition ascii_lower :: "pystr \<Rightarrow> pystr" where
  "ascii_lower s = map (\<lambda>c. if 65 \<le> c \<and> c \<le> 90 then c + 32 else c) s"

definition ascii_urlparse :: "pystr \<Rightarrow> (pystr \<times> pystr) option" where
  "ascii_urlparse url =
     (let pre = takeWhile (\<lambda>c. c \<noteq> 58) url;
          has_scheme = (pre \<noteq> [] \<and> length pre < length url \<and> ascii_alpha (hd url) \<and>
                        list_all (\<lambda>c. ascii_alnum c \<or> c = 43 \<or> c = 45 \<or> c = 46) pre);
          scheme = (if has_scheme then ascii_lower pre else []);
          rest = (if has_scheme then drop (length pre + 1) url else url);
          netloc = (if take 2 rest = [47, 47]
                    then takeWhile (\<lambda>c. c \<noteq> 47 \<and> c \<noteq> 63 \<and> c \<noteq> 35) (drop 2 rest)
                    else [])
      in Some (scheme, netloc))"

definition hex_digit :: "nat \<Rightarrow> nat" where
  "hex_digit d = (if d < 10 then 48 + d else 55 + d)"

definition ascii_quote :: "pystr \<Rightarrow> pystr" where
  "ascii_quote s =
     concat (map (\<lambda>c. if ascii_alnum c \<or> c = 95 \<or> c = 46 \<or> c = 45 \<or> c = 126 \<or> c = 47 then [c]
                       else [37, hex_digit (c div 16), hex_digit (c mod 16)]) s)"

definition ascii_lib :: pylib where
  "ascii_lib =
     \<lparr>urlparse = ascii_urlparse, str_lower = ascii_lower, word_char = ascii_word,
      html_unescape = (\<lambda>s. s), url_quote = ascii_quote, sub_attribution = (\<lambda>s. s),
      py_repr = (\<lambda>v. [])\<rparr>"

text \<open>Worlds for the examples: a network that is down, and one that serves one page.\<close>

definition offline :: world where
  "offline = \<lparr>net = (\<lambda>n u. RequestException), requests = 0, slept = 0\<rparr>"

definition serving :: "soup \<Rightarrow> world" where
  "serving sp =
     \<lparr>net = (\<lambda>n u. Response \<lparr>status_code = 200, document = sp, json_body = None\<rparr>),
      requests = 0, slept = 0\<rparr>"

definition empty_page :: soup where
  "empty_page =
     \<lparr>og_title = None, og_description = None, og_image = None, name_description = None,
      name_author = None, title_tag = None, article_paragraphs = None, shared_data = None,
      initial_state = None\<rparr>"

section \<open>Notions of the specification\<close>

text \<open>\<open>p\<close> occurs in \<open>s\<close> as a substring.\<close>

definition occurs :: "pystr \<Rightarrow> pystr \<Rightarrow> bool" where
  "occurs p s \<longleftrightarrow> (\<exists>a b. s = a @ p @ b)"

text \<open>
  Counting the invocations of a dispatcher: the wrapped dispatcher carries a counter
  beside the world and increments it at each call.
\<close>

definition counted ::
  "(pystr \<Rightarrow> 'w \<Rightarrow> (exn + result) \<times> 'w) \<Rightarrow> pystr \<Rightarrow> 'w \<times> nat \<Rightarrow> (exn + result) \<times> ('w \<times> nat)" where
  "counted ext url s = (fst (ext url (fst s)), (snd (ext url (fst s)), Suc (snd s)))"

text \<open>
  The world in which attempt \<open>k\<close> (from 0) starts when all attempts before it returned a
  failure: each of them was followed by one sleep. \<open>attempt\<close> is what the dispatcher
  returns there, and \<open>failed\<close> says that an outcome is a result whose \<open>success\<close> is false.
\<close>

fun before_attempt ::
  "(pystr \<Rightarrow> 'w \<Rightarrow> (exn + result) \<times> 'w) \<Rightarrow> ('w \<Rightarrow> 'w) \<Rightarrow> pystr \<Rightarrow> nat \<Rightarrow> 'w \<Rightarrow> 'w" where
  "before_attempt ext slp url 0 w = w"
| "before_attempt ext slp url (Suc k) w = slp (snd (ext url (before_attempt ext slp url k w)))"

definition attempt ::
  "(pystr \<Rightarrow> 'w \<Rightarrow> (exn + result) \<times> 'w) \<Rightarrow> ('w \<Rightarrow> 'w) \<Rightarrow> pystr \<Rightarrow> nat \<Rightarrow> 'w \<Rightarrow> (exn + result) \<times> 'w" where
  "attempt ext slp url k w = ext url (before_attempt ext slp url k w)"

definition failed :: "(exn + result) \<times> 'w \<Rightarrow> bool" where
  "failed out = (case fst out of Inl e \<Rightarrow> False | Inr r \<Rightarrow> \<not> get_success r)"

text \<open>
  The two stub dispatchers of the specification's retry test. Their world is the number
  of invocations so far.
\<close>

definition always_fails :: "pystr \<Rightarrow> nat \<Rightarrow> (exn + result) \<times> nat" where
  "always_fails url n = (Inr (failure (str ''Failed to fetch webpage'')), Suc n)"

definition fails_twice :: "pystr \<Rightarrow> nat \<Rightarrow> (exn + result) \<times> nat" where
  "fails_twice url n =
     (if n < 2 then (Inr (failure (str ''Failed to fetch webpage'')), Suc n)
      else (Inr [(''success'', PBool True), (''url'', PStr url)], Suc n))"

text \<open>The page of end-to-end scenario B: an \<open>og:title\<close> and nothing else.\<close>

definition demo_video_page :: soup where
  "demo_video_page = empty_page\<lparr>og_title := Some (Some (str ''Demo Video''))\<rparr>"

text \<open>
  For the idempotence question: \<open>follows W m s\<close> says that \<open>s\<close> has the marker \<open>m\<close> directly
  before a word character, \<open>has_token\<close> that it has a hashtag or mention token, and
  \<open>dot_run\<close> that it has two adjacent periods.
\<close>

fun follows :: "(nat \<Rightarrow> bool) \<Rightarrow> nat \<Rightarrow> pystr \<Rightarrow> bool" where
  "follows W m (c # d # cs) = ((c = m \<and> W d) \<or> follows W m (d # cs))"
| "follows W m cs = False"

definition has_token :: "(nat \<Rightarrow> bool) \<Rightarrow> pystr \<Rightarrow> bool" where
  "has_token W s \<longleftrightarrow> follows W 35 s \<or> follows W 64 s"

fun dot_run :: "pystr \<Rightarrow> bool" where
  "dot_run (c # d # cs) = ((c = 46 \<and> d = 46) \<or> dot_run (d # cs))"
| "dot_run cs = False"

text \<open>
  The record invariant of the specification: a failure carries a non-empty \<open>error\<close>; a
  success carries non-empty \<open>platform\<close>, \<open>url\<close> and \<open>media_type\<close>, and \<open>title\<close> and \<open>caption\<close>
  are present and are strings.
\<close>

definition populated :: "pyval option \<Rightarrow> bool" where
  "populated v = (case v of Some (PStr s) \<Rightarrow> s \<noteq> [] | _ \<Rightarrow> False)"

definition present_str :: "pyval option \<Rightarrow> bool" where
  "present_str v = (case v of Some (PStr s) \<Rightarrow> True | _ \<Rightarrow> False)"

definition result_invariant :: "result \<Rightarrow> bool" where
  "result_invariant r =
     (case map_of r ''success'' of
        Some (PBool False) \<Rightarrow> populated (map_of r ''error'')
      | Some (PBool True) \<Rightarrow>
          populated (map_of r ''platform'') \<and> populated (map_of r ''url'') \<and>
          populated (map_of r ''media_type'') \<and> present_str (map_of r ''title'') \<and>
          present_str (map_of r ''caption'')
      | _ \<Rightarrow> False)"

text \<open>
  An Instagram page whose legacy blob has a caption node with \<open>"text": null\<close>, and a page
  whose \<open>og:title\<close> tag has no \<open>content\<close> attribute.
\<close>

definition null_caption_blob :: pyval where
  "null_caption_blob =
     PDict [(str ''entry_data'',
       PDict [(str ''PostPage'',
         PList [PDict [(str ''graphql'',
           PDict [(str ''shortcode_media'',
             PDict [(str ''edge_media_to_caption'',
               PDict [(str ''edges'',
                 PList [PDict [(str ''node'', PDict [(str ''text'', PNone)])]])])])])]])])]"

definition null_caption_page :: soup where
  "null_caption_page =
     empty_page\<lparr>og_description := Some (Some (str ''A day out'')),
                 shared_data := Some null_caption_blob\<rparr>"

definition bare_title_page :: soup where
  "bare_title_page = empty_page\<lparr>og_title := Some None\<rparr>"

text \<open>
  A page none of whose three Open Graph tags lacks its \<open>content\<close> attribute.
\<close>

definition well_tagged :: "soup \<Rightarrow> bool" where
  "well_tagged sp \<longleftrightarrow>
     og_title sp \<noteq> Some None \<and> og_description sp \<noteq> Some None \<and> og_image sp \<noteq> Some None"

text \<open>
  A video page with a title and an \<open>og:image\<close>, and a page whose \<open>og:image\<close> tag has no
  \<open>content\<close> attribute.
\<close>

definition poster_page :: soup where
  "poster_page =
     empty_page\<lparr>og_title := Some (Some (str ''Demo Video'')),
                 og_image := Some (Some (str ''https://i.example/p.jpg''))\<rparr>"


text \<open>
  The equations of \<open>py_split\<close> and \<open>retry_loop\<close> rewrite a call into a term with the same
  call inside; they are unfolded by hand.
\<close>

declare py_split.simps [simp del]

declare retry_loop.simps [simp del]

section \<open>Properties\<close>

lemma length_strip_le: "length (strip s) \<le> length s"
proof -
  have "length (strip s) \<le> length (dropWhile is_space s)"
    using length_dropWhile_le [of is_space "rev (dropWhile is_space s)"]
    by (simp add: strip_def)
  also have "\<dots> \<le> length s"
    by (rule length_dropWhile_le)
  finally show ?thesis .
qed

text \<open>
  C8: on every string \<open>_clean_instagram_title\<close> returns (it does not raise), and what it
  returns has at most 61 characters; on the empty string it returns the default label,
  which is not empty.
\<close>

theorem clean_instagram_title_bound:
  "(\<exists>t. clean_instagram_title lib (PStr caption) = Inr t \<and> length t \<le> 61) \<and>
   clean_instagram_title lib (PStr []) = Inr (str ''Instagram Post'') \<and>
   str ''Instagram Post'' \<noteq> []"
proof -
  let ?W = "word_char lib"
  have a: "length (strip (takeWhile (\<lambda>c. c \<noteq> 46) t) @ [46]) \<le> 61"
    if "length (takeWhile (\<lambda>c. c \<noteq> 46) t) \<le> 60" for t :: pystr
    using that length_strip_le [of "takeWhile (\<lambda>c. c \<noteq> 46) t"] by simp
  have b: "length (strip (take 60 t)) \<le> 61" for t :: pystr
    using length_strip_le [of "take 60 t"] by simp
  have c: "length (str ''Instagram Post'') \<le> 61"
    by (simp add: str_def)
  have len: "length (clean_title ?W caption) \<le> 61"
    unfolding clean_title_def Let_def using a b c by (simp del: length_append)
  have "clean_instagram_title lib (PStr caption) =
      Inr (if caption = [] then str ''Instagram Post'' else clean_title ?W caption)"
    by (simp add: clean_instagram_title_def)
  then have "\<exists>t. clean_instagram_title lib (PStr caption) = Inr t \<and> length t \<le> 61"
    using len c by simp
  moreover have "clean_instagram_title lib (PStr []) = Inr (str ''Instagram Post'')"
    by (simp add: clean_instagram_title_def)
  moreover have "str ''Instagram Post'' \<noteq> []"
    by (simp add: str_def)
  ultimately show ?thesis by simp
qed

lemma startswith_iff: "startswith s p \<longleftrightarrow> (\<exists>b. s = p @ b)"
  by (induction s p rule: startswith.induct) auto

lemma contains_iff: "contains s p \<longleftrightarrow> occurs p s"
proof (induction s)
  case Nil
  show ?case by (auto simp: occurs_def)
next
  case (Cons c cs)
  have "occurs p (c # cs) \<longleftrightarrow> (\<exists>b. c # cs = p @ b) \<or> occurs p cs"
  proof
    assume "occurs p (c # cs)"
    then obtain a b where ab: "c # cs = a @ p @ b" by (auto simp: occurs_def)
    show "(\<exists>b. c # cs = p @ b) \<or> occurs p cs"
    proof (cases a)
      case Nil
      with ab show ?thesis by auto
    next
      case (Cons x a')
      with ab have "cs = a' @ p @ b" by simp
      then show ?thesis by (auto simp: occurs_def)
    qed
  next
    assume "(\<exists>b. c # cs = p @ b) \<or> occurs p cs"
    then show "occurs p (c # cs)"
    proof
      assume "\<exists>b. c # cs = p @ b"
      then obtain b where "c # cs = [] @ p @ b" by auto
      then show ?thesis unfolding occurs_def by blast
    next
      assume "occurs p cs"
      then obtain a b where "cs = a @ p @ b" by (auto simp: occurs_def)
      then have "c # cs = (c # a) @ p @ b" by simp
      then show ?thesis unfolding occurs_def by blast
    qed
  qed
  with Cons show ?case by (simp add: startswith_iff)
qed

lemma any_pattern_iff: "any_pattern ps u \<longleftrightarrow> (\<exists>p\<in>set ps. occurs p u)"
  by (induction ps) (auto simp: contains_iff)

lemma scan_platforms_none:
  "(\<forall>(q, ps)\<in>set tbl. \<not> any_pattern ps u) \<Longrightarrow> scan_platforms tbl u = str ''blog''"
  by (induction tbl u rule: scan_platforms.induct) auto

lemma scan_platforms_first:
  "(\<forall>(q, ps)\<in>set before. \<not> any_pattern ps u) \<Longrightarrow> any_pattern patterns u \<Longrightarrow>
   scan_platforms (before @ (platform, patterns) # rest) u = platform"
  by (induction before u rule: scan_platforms.induct) auto

lemma scan_platforms_range:
  "scan_platforms tbl u \<in> insert (str ''blog'') (fst ` set tbl)"
  by (induction tbl u rule: scan_platforms.induct) auto

text \<open>
  C4: \<open>detect_platform\<close> is a function of the URL alone. It returns the first platform of the
  table, in table order, one of whose patterns occurs in the lower-cased URL, and \<open>'blog'\<close>
  when no pattern of the table occurs there; its value is always one of the nine tags.
\<close>

theorem detect_platform_first_match:
  "(PLATFORM_PATTERNS = before @ (platform, patterns) # rest \<and>
    (\<exists>p\<in>set patterns. occurs p (str_lower lib url)) \<and>
    (\<forall>(q, ps)\<in>set before. \<forall>p\<in>set ps. \<not> occurs p (str_lower lib url))
    \<longrightarrow> detect_platform lib url = platform) \<and>
   ((\<forall>(q, ps)\<in>set PLATFORM_PATTERNS. \<forall>p\<in>set ps. \<not> occurs p (str_lower lib url))
    \<longrightarrow> detect_platform lib url = str ''blog'') \<and>
   detect_platform lib url \<in> fst ` set PLATFORM_PATTERNS"
proof (intro conjI impI)
  assume a: "PLATFORM_PATTERNS = before @ (platform, patterns) # rest \<and>
    (\<exists>p\<in>set patterns. occurs p (str_lower lib url)) \<and>
    (\<forall>(q, ps)\<in>set before. \<forall>p\<in>set ps. \<not> occurs p (str_lower lib url))"
  then have "\<forall>(q, ps)\<in>set before. \<not> any_pattern ps (str_lower lib url)"
    by (auto simp: any_pattern_iff)
  moreover have "any_pattern patterns (str_lower lib url)"
    using a by (simp add: any_pattern_iff)
  ultimately have "scan_platforms (before @ (platform, patterns) # rest) (str_lower lib url) = platform"
    by (rule scan_platforms_first)
  then show "detect_platform lib url = platform"
    using a by (simp add: detect_platform_def)
next
  assume "\<forall>(q, ps)\<in>set PLATFORM_PATTERNS. \<forall>p\<in>set ps. \<not> occurs p (str_lower lib url)"
  then have "\<forall>(q, ps)\<in>set PLATFORM_PATTERNS. \<not> any_pattern ps (str_lower lib url)"
    by (auto simp: any_pattern_iff)
  then show "detect_platform lib url = str ''blog''"
    unfolding detect_platform_def by (rule scan_platforms_none)
next
  have "str ''blog'' \<in> fst ` set PLATFORM_PATTERNS"
    by (simp add: PLATFORM_PATTERNS_def)
  then have "insert (str ''blog'') (fst ` set PLATFORM_PATTERNS) = fst ` set PLATFORM_PATTERNS"
    by (rule insert_absorb)
  then show "detect_platform lib url \<in> fst ` set PLATFORM_PATTERNS"
    unfolding detect_platform_def
    using scan_platforms_range [of PLATFORM_PATTERNS "str_lower lib url"] by simp
qed

theorem detect_platform_first_match_witness:
  "detect_platform ascii_lib (str ''https://YouTu.be/x'') = str ''youtube'' \<and>
   detect_platform ascii_lib (str ''http://a.org'') = str ''blog''"
proof -
  let ?u = "str ''https://YouTu.be/x''" and ?b = "str ''http://a.org''"
  have split: "PLATFORM_PATTERNS =
      take 3 PLATFORM_PATTERNS @ (str ''youtube'', [str ''youtube.com'', str ''youtu.be'']) #
      drop 4 PLATFORM_PATTERNS"
    by code_simp
  have hit: "\<exists>p\<in>set [str ''youtube.com'', str ''youtu.be'']. occurs p (str_lower ascii_lib ?u)"
    unfolding contains_iff [symmetric] by code_simp
  have miss: "\<forall>(q, ps)\<in>set (take 3 PLATFORM_PATTERNS). \<forall>p\<in>set ps. \<not> occurs p (str_lower ascii_lib ?u)"
    unfolding contains_iff [symmetric] by code_simp
  have none: "\<forall>(q, ps)\<in>set PLATFORM_PATTERNS. \<forall>p\<in>set ps. \<not> occurs p (str_lower ascii_lib ?b)"
    unfolding contains_iff [symmetric] by code_simp
  have 1: "detect_platform ascii_lib ?u = str ''youtube''"
    using detect_platform_first_match [of "take 3 PLATFORM_PATTERNS" "str ''youtube''"
        "[str ''youtube.com'', str ''youtu.be'']" "drop 4 PLATFORM_PATTERNS" ascii_lib ?u]
      split hit miss
    by blast
  have 2: "detect_platform ascii_lib ?b = str ''blog''"
    using detect_platform_first_match [of "[]" "str ''instagram''"
        "[str ''instagram.com'', str ''instagr.am'']" "drop 1 PLATFORM_PATTERNS" ascii_lib ?b]
      none
    by blast
  show ?thesis using 1 2 by simp
qed

text \<open>
  C2: when the parse of the input raises or yields an empty scheme or an empty host,
  \<open>extract\<close> returns the failure \<open>Invalid URL format\<close> and leaves the world as it was (no
  request is made); when both scheme and host are present, \<open>extract\<close> is the strategy of the
  detected platform, and the generic strategy for the tag \<open>'blog'\<close>.
\<close>

theorem extract_dispatch:
  "((urlparse lib url = None \<or>
     (\<exists>scheme netloc. urlparse lib url = Some (scheme, netloc) \<and> (scheme = [] \<or> netloc = [])))
    \<longrightarrow> extract' lib url w = (Inr (failure (str ''Invalid URL format'')), w)) \<and>
   ((\<exists>scheme netloc. urlparse lib url = Some (scheme, netloc) \<and> scheme \<noteq> [] \<and> netloc \<noteq> [])
    \<longrightarrow>
      (detect_platform lib url = str ''instagram'' \<longrightarrow> extract' lib url w = extract_instagram lib url w) \<and>
      (detect_platform lib url = str ''twitter'' \<longrightarrow> extract' lib url w = extract_twitter lib url w) \<and>
      (detect_platform lib url = str ''facebook'' \<longrightarrow> extract' lib url w = extract_facebook url w) \<and>
      (detect_platform lib url = str ''youtube'' \<longrightarrow> extract' lib url w = extract_youtube url w) \<and>
      (detect_platform lib url = str ''tiktok'' \<longrightarrow> extract' lib url w = extract_tiktok url w) \<and>
      (detect_platform lib url = str ''linkedin'' \<longrightarrow> extract' lib url w = extract_linkedin url w) \<and>
      (detect_platform lib url = str ''reddit'' \<longrightarrow> extract' lib url w = extract_reddit url w) \<and>
      (detect_platform lib url = str ''pinterest'' \<longrightarrow> extract' lib url w = extract_pinterest url w) \<and>
      (detect_platform lib url = str ''blog'' \<longrightarrow> extract' lib url w = extract_generic url w))"
proof (intro conjI impI)
  assume "urlparse lib url = None \<or>
     (\<exists>scheme netloc. urlparse lib url = Some (scheme, netloc) \<and> (scheme = [] \<or> netloc = []))"
  then have "\<not> is_valid_url lib url"
    by (auto simp: is_valid_url_def)
  then show "extract' lib url w = (Inr (failure (str ''Invalid URL format'')), w)"
    by (simp add: extract'_def)
next
  assume v: "\<exists>scheme netloc. urlparse lib url = Some (scheme, netloc) \<and> scheme \<noteq> [] \<and> netloc \<noteq> []"
  then have valid: "is_valid_url lib url"
    by (auto simp: is_valid_url_def)
  { assume "detect_platform lib url = str ''instagram''"
    then show "extract' lib url w = extract_instagram lib url w"
      using valid by (simp add: extract'_def extractors_def str_def) }
  { assume "detect_platform lib url = str ''twitter''"
    then show "extract' lib url w = extract_twitter lib url w"
      using valid by (simp add: extract'_def extractors_def str_def) }
  { assume "detect_platform lib url = str ''facebook''"
    then show "extract' lib url w = extract_facebook url w"
      using valid by (simp add: extract'_def extractors_def str_def) }
  { assume "detect_platform lib url = str ''youtube''"
    then show "extract' lib url w = extract_youtube url w"
      using valid by (simp add: extract'_def extractors_def str_def) }
  { assume "detect_platform lib url = str ''tiktok''"
    then show "extract' lib url w = extract_tiktok url w"
      using valid by (simp add: extract'_def extractors_def str_def) }
  { assume "detect_platform lib url = str ''linkedin''"
    then show "extract' lib url w = extract_linkedin url w"
      using valid by (simp add: extract'_def extractors_def str_def) }
  { assume "detect_platform lib url = str ''reddit''"
    then show "extract' lib url w = extract_reddit url w"
      using valid by (simp add: extract'_def extractors_def str_def) }
  { assume "detect_platform lib url = str ''pinterest''"
    then show "extract' lib url w = extract_pinterest url w"
      using valid by (simp add: extract'_def extractors_def str_def) }
  { assume "detect_platform lib url = str ''blog''"
    then show "extract' lib url w = extract_generic url w"
      using valid by (simp add: extract'_def extractors_def str_def) }
qed

theorem extract_dispatch_witness:
  "extract' ascii_lib (str ''not a url'') offline =
     (Inr [(''success'', PBool False), (''error'', PStr (str ''Invalid URL format''))], offline) \<and>
   extract' ascii_lib (str ''https://YouTu.be/x'') offline =
     extract_youtube (str ''https://YouTu.be/x'') offline \<and>
   extract' ascii_lib (str ''http://a.org'') offline = extract_generic (str ''http://a.org'') offline"
proof -
  have 1: "urlparse ascii_lib (str ''not a url'') = Some ([], [])"
    by code_simp
  have 2: "urlparse ascii_lib (str ''https://YouTu.be/x'') = Some (str ''https'', str ''YouTu.be'')"
    by code_simp
  have 3: "urlparse ascii_lib (str ''http://a.org'') = Some (str ''http'', str ''a.org'')"
    by code_simp
  have 4: "detect_platform ascii_lib (str ''https://YouTu.be/x'') = str ''youtube''"
    by code_simp
  have 5: "detect_platform ascii_lib (str ''http://a.org'') = str ''blog''"
    by code_simp
  have ne: "str ''https'' \<noteq> []" "str ''YouTu.be'' \<noteq> []" "str ''http'' \<noteq> []" "str ''a.org'' \<noteq> []"
    by (simp_all add: str_def)
  have a: "extract' ascii_lib (str ''not a url'') offline =
     (Inr (failure (str ''Invalid URL format'')), offline)"
    using extract_dispatch [of ascii_lib "str ''not a url''" offline] 1 by simp
  have b: "extract' ascii_lib (str ''https://YouTu.be/x'') offline =
     extract_youtube (str ''https://YouTu.be/x'') offline"
    using extract_dispatch [of ascii_lib "str ''https://YouTu.be/x''" offline] 2 4 ne by simp
  have c: "extract' ascii_lib (str ''http://a.org'') offline = extract_generic (str ''http://a.org'') offline"
    using extract_dispatch [of ascii_lib "str ''http://a.org''" offline] 3 5 ne by simp
  show ?thesis using a b c by (simp add: failure_def)
qed

lemma retry_loop_stop:
  assumes "\<not> failed (attempt ext slp url k w)" and "k < m"
    and "\<forall>j. a \<le> j \<and> j < k \<longrightarrow> failed (attempt ext slp url j w)" and "a \<le> k"
  shows "retry_loop ext slp url (int m) (int a) b (before_attempt ext slp url a w)
         = attempt ext slp url k w"
  using assms(3,4)
proof (induction "k - a" arbitrary: a b)
  case 0
  then have ak: "a = k" by simp
  show ?case
    using assms(1,2) unfolding ak
    by (subst retry_loop.simps) (auto simp: attempt_def failed_def prod_eq_iff split: sum.splits)
next
  case (Suc d)
  then have lt: "a < k" by simp
  then have f: "failed (attempt ext slp url a w)" using Suc.prems by simp
  then obtain r where r: "fst (ext url (before_attempt ext slp url a w)) = Inr r" "\<not> get_success r"
    by (auto simp: failed_def attempt_def split: sum.splits)
  have step: "retry_loop ext slp url (int m) (int a) b (before_attempt ext slp url a w)
      = retry_loop ext slp url (int m) (int (Suc a)) (Some r) (before_attempt ext slp url (Suc a) w)"
    using r lt assms(2) by (subst retry_loop.simps) (simp add: add.commute)
  have "retry_loop ext slp url (int m) (int (Suc a)) (Some r) (before_attempt ext slp url (Suc a) w)
      = attempt ext slp url k w"
  proof (rule Suc.hyps(1))
    show "d = k - Suc a" using Suc.hyps(2) by simp
    show "\<forall>j. Suc a \<le> j \<and> j < k \<longrightarrow> failed (attempt ext slp url j w)" using Suc.prems(1) by simp
    show "Suc a \<le> k" using lt by simp
  qed
  with step show ?case by simp
qed

lemma retry_loop_exhaust:
  assumes "\<forall>j. a \<le> j \<and> j < m \<longrightarrow> failed (attempt ext slp url j w)" and "a < m"
  shows "retry_loop ext slp url (int m) (int a) b (before_attempt ext slp url a w)
         = attempt ext slp url (m - 1) w"
  using assms
proof (induction "m - a" arbitrary: a b)
  case 0
  then show ?case by simp
next
  case (Suc d)
  have f: "failed (attempt ext slp url a w)" using Suc.prems by simp
  then obtain r where r: "fst (ext url (before_attempt ext slp url a w)) = Inr r" "\<not> get_success r"
    by (auto simp: failed_def attempt_def split: sum.splits)
  show ?case
  proof (cases "Suc a < m")
    case True
    have step: "retry_loop ext slp url (int m) (int a) b (before_attempt ext slp url a w)
      = retry_loop ext slp url (int m) (int (Suc a)) (Some r) (before_attempt ext slp url (Suc a) w)"
      using r True by (subst retry_loop.simps) (simp add: add.commute)
    have "retry_loop ext slp url (int m) (int (Suc a)) (Some r) (before_attempt ext slp url (Suc a) w)
      = attempt ext slp url (m - 1) w"
    proof (rule Suc.hyps(1))
      show "d = m - Suc a" using Suc.hyps(2) by simp
      show "\<forall>j. Suc a \<le> j \<and> j < m \<longrightarrow> failed (attempt ext slp url j w)" using Suc.prems(1) by simp
      show "Suc a < m" by (rule True)
    qed
    with step show ?thesis by simp
  next
    case False
    then have am: "m = Suc a" using Suc.prems(2) by simp
    have "retry_loop ext slp url (int m) (int a) b (before_attempt ext slp url a w)
      = retry_loop ext slp url (int m) (int (Suc a)) (Some r) (snd (ext url (before_attempt ext slp url a w)))"
      using r am by (subst retry_loop.simps) (simp add: add.commute)
    also have "\<dots> = (Inr r, snd (ext url (before_attempt ext slp url a w)))"
      using am by (subst retry_loop.simps) simp
    also have "\<dots> = attempt ext slp url (m - 1) w"
      using r am by (simp add: attempt_def prod_eq_iff)
    finally show ?thesis .
  qed
qed

lemma retry_no_attempt:
  "max_retries \<le> 0 \<Longrightarrow> extract_with_retry ext slp url max_retries w = (Inl UnboundLocalError, w)"
  unfolding extract_with_retry_def by (subst retry_loop.simps) simp


lemma retry_cases:
  assumes "0 < m"
  shows "(\<exists>k<m. (\<forall>j<k. failed (attempt ext slp url j w)) \<and> \<not> failed (attempt ext slp url k w) \<and>
            extract_with_retry ext slp url (int m) w = attempt ext slp url k w) \<or>
         ((\<forall>j<m. failed (attempt ext slp url j w)) \<and>
            extract_with_retry ext slp url (int m) w = attempt ext slp url (m - 1) w)"
proof (cases "\<exists>k. k < m \<and> \<not> failed (attempt ext slp url k w)")
  case True
  then obtain k0 where k0: "k0 < m \<and> \<not> failed (attempt ext slp url k0 w)" ..
  define k where "k = (LEAST k. k < m \<and> \<not> failed (attempt ext slp url k w))"
  have k: "k < m \<and> \<not> failed (attempt ext slp url k w)"
    unfolding k_def using k0 by (rule LeastI)
  have least: "failed (attempt ext slp url j w)" if "j < k" for j
  proof -
    have "\<not> (j < m \<and> \<not> failed (attempt ext slp url j w))"
      using that unfolding k_def by (rule not_less_Least)
    moreover have "j < m" using that k by simp
    ultimately show ?thesis by simp
  qed
  have "retry_loop ext slp url (int m) (int 0) None (before_attempt ext slp url 0 w)
         = attempt ext slp url k w"
  proof (rule retry_loop_stop)
    show "\<not> failed (attempt ext slp url k w)" using k by simp
    show "k < m" using k by simp
    show "\<forall>j. 0 \<le> j \<and> j < k \<longrightarrow> failed (attempt ext slp url j w)" using least by simp
    show "0 \<le> k" by simp
  qed
  then have "extract_with_retry ext slp url (int m) w = attempt ext slp url k w"
    by (simp add: extract_with_retry_def)
  with k least have "\<exists>k<m. (\<forall>j<k. failed (attempt ext slp url j w)) \<and>
      \<not> failed (attempt ext slp url k w) \<and>
      extract_with_retry ext slp url (int m) w = attempt ext slp url k w"
    by (intro exI [of _ k]) simp
  then show ?thesis ..
next
  case False
  then have all: "\<forall>j<m. failed (attempt ext slp url j w)" by simp
  have "retry_loop ext slp url (int m) (int 0) None (before_attempt ext slp url 0 w)
         = attempt ext slp url (m - 1) w"
  proof (rule retry_loop_exhaust)
    show "\<forall>j. 0 \<le> j \<and> j < m \<longrightarrow> failed (attempt ext slp url j w)" using all by simp
    show "0 < m" by (rule assms)
  qed
  then have "extract_with_retry ext slp url (int m) w = attempt ext slp url (m - 1) w"
    by (simp add: extract_with_retry_def)
  with all show ?thesis by simp
qed

lemma before_counted:
  "before_attempt (counted ext) (apfst slp) url k (w, n) = (before_attempt ext slp url k w, n + k)"
  by (induction k) (simp_all add: counted_def)

lemma attempt_counted:
  "attempt (counted ext) (apfst slp) url k (w, n) =
     (fst (attempt ext slp url k w), (snd (attempt ext slp url k w), Suc (n + k)))"
  by (simp add: attempt_def before_counted counted_def)

lemma failed_counted:
  "failed (attempt (counted ext) (apfst slp) url k (w, n)) = failed (attempt ext slp url k w)"
  by (simp add: attempt_counted failed_def)

text \<open>
  C3: the wrapper invokes the dispatcher at most \<open>max_retries\<close> times. When attempt \<open>k\<close> is
  the first that does not return a failure, the wrapper returns what that attempt returned,
  after exactly \<open>k + 1\<close> invocations; when all \<open>m\<close> attempts return failures it returns the
  result of the last one, unchanged, after exactly \<open>m\<close> invocations. The instance after the theorem
  runs the two stubs of the specification: always failing, and failing twice before a success.
\<close>

theorem extract_with_retry_attempts:
  "snd (snd (extract_with_retry (counted ext) (apfst slp) url max_retries (w, 0))) \<le> nat max_retries \<and>
   (k < m \<and> (\<forall>j<k. failed (attempt ext slp url j w)) \<and> \<not> failed (attempt ext slp url k w) \<longrightarrow>
      extract_with_retry (counted ext) (apfst slp) url (int m) (w, 0) =
        (fst (attempt ext slp url k w), (snd (attempt ext slp url k w), Suc k))) \<and>
   (0 < m \<and> (\<forall>j<m. failed (attempt ext slp url j w)) \<longrightarrow>
      extract_with_retry (counted ext) (apfst slp) url (int m) (w, 0) =
        (fst (attempt ext slp url (m - 1) w), (snd (attempt ext slp url (m - 1) w), m)))"
proof (intro conjI impI)
  let ?c = "counted ext" and ?s = "apfst slp"
  show "snd (snd (extract_with_retry ?c ?s url max_retries (w, 0))) \<le> nat max_retries"
  proof (cases "max_retries \<le> 0")
    case True
    then show ?thesis by (simp add: retry_no_attempt)
  next
    case False
    define n where "n = nat max_retries"
    have n: "0 < n" "int n = max_retries" using False by (simp_all add: n_def)
    from retry_cases [OF n(1), of ?c ?s url "(w, 0)"]
    have "\<exists>k<n. extract_with_retry ?c ?s url (int n) (w, 0) = attempt ?c ?s url k (w, 0)"
    proof
      assume "\<exists>k<n. (\<forall>j<k. failed (attempt ?c ?s url j (w, 0))) \<and>
          \<not> failed (attempt ?c ?s url k (w, 0)) \<and>
          extract_with_retry ?c ?s url (int n) (w, 0) = attempt ?c ?s url k (w, 0)"
      then show ?thesis by blast
    next
      assume "(\<forall>j<n. failed (attempt ?c ?s url j (w, 0))) \<and>
          extract_with_retry ?c ?s url (int n) (w, 0) = attempt ?c ?s url (n - 1) (w, 0)"
      moreover have "n - 1 < n" using n(1) by simp
      ultimately show ?thesis by blast
    qed
    then obtain k where "k < n"
      "extract_with_retry ?c ?s url max_retries (w, 0) = attempt ?c ?s url k (w, 0)"
      using n(2) by auto
    then show ?thesis by (simp add: attempt_counted n_def)
  qed
next
  assume a: "k < m \<and> (\<forall>j<k. failed (attempt ext slp url j w)) \<and> \<not> failed (attempt ext slp url k w)"
  have "retry_loop (counted ext) (apfst slp) url (int m) (int 0) None
          (before_attempt (counted ext) (apfst slp) url 0 (w, 0))
        = attempt (counted ext) (apfst slp) url k (w, 0)"
  proof (rule retry_loop_stop)
    show "\<not> failed (attempt (counted ext) (apfst slp) url k (w, 0))"
      using a by (simp add: failed_counted)
    show "k < m" using a by simp
    show "\<forall>j. 0 \<le> j \<and> j < k \<longrightarrow> failed (attempt (counted ext) (apfst slp) url j (w, 0))"
      using a by (simp add: failed_counted)
    show "0 \<le> k" by simp
  qed
  then show "extract_with_retry (counted ext) (apfst slp) url (int m) (w, 0) =
        (fst (attempt ext slp url k w), (snd (attempt ext slp url k w), Suc k))"
    by (simp add: extract_with_retry_def attempt_counted)
next
  assume a: "0 < m \<and> (\<forall>j<m. failed (attempt ext slp url j w))"
  have "retry_loop (counted ext) (apfst slp) url (int m) (int 0) None
          (before_attempt (counted ext) (apfst slp) url 0 (w, 0))
        = attempt (counted ext) (apfst slp) url (m - 1) (w, 0)"
  proof (rule retry_loop_exhaust)
    show "\<forall>j. 0 \<le> j \<and> j < m \<longrightarrow> failed (attempt (counted ext) (apfst slp) url j (w, 0))"
      using a by (simp add: failed_counted)
    show "0 < m" using a by simp
  qed
  then show "extract_with_retry (counted ext) (apfst slp) url (int m) (w, 0) =
        (fst (attempt ext slp url (m - 1) w), (snd (attempt ext slp url (m - 1) w), m))"
    using a by (simp add: extract_with_retry_def attempt_counted)
qed

lemma before_always_fails: "before_attempt always_fails (\<lambda>s. s) url k n = n + k"
  by (induction k) (simp_all add: always_fails_def)

lemma before_fails_twice: "before_attempt fails_twice (\<lambda>s. s) url k n = n + k"
  by (induction k) (simp_all add: fails_twice_def)

theorem extract_with_retry_attempts_witness:
  "extract_with_retry (counted always_fails) (apfst (\<lambda>s. s)) (str ''http://a.org'') 3 (0, 0) =
     (Inr [(''success'', PBool False), (''error'', PStr (str ''Failed to fetch webpage''))], (3, 3)) \<and>
   extract_with_retry (counted fails_twice) (apfst (\<lambda>s. s)) (str ''http://a.org'') 3 (0, 0) =
     (Inr [(''success'', PBool True), (''url'', PStr (str ''http://a.org''))], (3, 3))"
proof -
  let ?u = "str ''http://a.org''"
  have f: "failed (attempt always_fails (\<lambda>s. s) ?u j 0)" for j
    by (simp add: attempt_def always_fails_def failed_def failure_def get_success_def)
  have 1: "extract_with_retry (counted always_fails) (apfst (\<lambda>s. s)) ?u (int 3) (0, 0) =
        (fst (attempt always_fails (\<lambda>s. s) ?u (3 - 1) 0),
         (snd (attempt always_fails (\<lambda>s. s) ?u (3 - 1) 0), 3))"
    using extract_with_retry_attempts [of always_fails "\<lambda>s. s" ?u 3 0 0 3] f by simp
  have g: "failed (attempt fails_twice (\<lambda>s. s) ?u j 0)" if "j < 2" for j
    using that
    by (simp add: attempt_def fails_twice_def failed_def failure_def get_success_def before_fails_twice)
  have h: "\<not> failed (attempt fails_twice (\<lambda>s. s) ?u 2 0)"
    by (simp add: attempt_def fails_twice_def failed_def get_success_def before_fails_twice)
  have 2: "extract_with_retry (counted fails_twice) (apfst (\<lambda>s. s)) ?u (int 3) (0, 0) =
        (fst (attempt fails_twice (\<lambda>s. s) ?u 2 0),
         (snd (attempt fails_twice (\<lambda>s. s) ?u 2 0), Suc 2))"
    using extract_with_retry_attempts [of fails_twice "\<lambda>s. s" ?u 3 0 2 3] g h by simp
  show ?thesis
    using 1 2
    by (simp add: attempt_def before_always_fails before_fails_twice always_fails_def
        fails_twice_def failure_def)
qed




lemma video_id_of_watch:
  assumes "vid \<noteq> []" and "38 \<notin> set vid"
  shows "video_id_of (str ''https://www.youtube.com/watch?v='' @ vid @ rest) =
     vid @ takeWhile (\<lambda>c. c \<noteq> 38) rest"
proof -
  have "takeWhile (\<lambda>c. c \<noteq> 38) (vid @ rest) = vid @ takeWhile (\<lambda>c. c \<noteq> 38) rest"
    using assms(2) by (intro takeWhile_append2) auto
  then show ?thesis using assms(1) by (simp add: video_id_of_def str_def)
qed

lemma video_id_of_short:
  assumes "vid \<noteq> []" and "63 \<notin> set vid"
    and "\<not> contains (vid @ rest) (str ''youtube.com'')"
  shows "video_id_of (str ''https://youtu.be/'' @ vid @ rest) =
     vid @ takeWhile (\<lambda>c. c \<noteq> 63) rest"
proof -
  have "takeWhile (\<lambda>c. c \<noteq> 63) (vid @ rest) = vid @ takeWhile (\<lambda>c. c \<noteq> 63) rest"
    using assms(2) by (intro takeWhile_append2) auto
  then show ?thesis using assms(1,3) by (simp add: video_id_of_def str_def)
qed

text \<open>
  What the YouTube strategy does with the id that its two patterns find in the URL: a
  successful result carries that id; when an id is found, \<open>image_url\<close> is the constructed
  thumbnail URL whatever the page says about \<open>og:image\<close> (the tag is not even read); only
  when no id is found is it the content of \<open>og:image\<close>, or empty without that tag.
  Conversely, with an id found and a fetched page whose title and description tags can be
  read, the strategy returns that successful result.
\<close>

theorem youtube_thumbnail_preferred:
  "(extract_youtube url w = (Inr r, w') \<and> get_success r \<longrightarrow>
      (\<exists>sp. make_request url w = (Some sp, w') \<and>
         map_of r ''video_id'' = Some (PStr (video_id_of url)) \<and>
         (video_id_of url \<noteq> [] \<longrightarrow>
            map_of r ''image_url'' = Some (PStr (thumbnail (video_id_of url)))) \<and>
         (video_id_of url = [] \<longrightarrow>
            map_of r ''image_url'' =
              Some (PStr (case og_image sp of None \<Rightarrow> [] | Some m \<Rightarrow> tag_get m))))) \<and>
   (make_request url w = (Some sp, w') \<and> video_id_of url \<noteq> [] \<and>
    content_or (og_title sp) (str ''YouTube Video'') = Inr title \<and>
    content_or (og_description sp) [] = Inr caption \<longrightarrow>
      extract_youtube url w =
        (Inr [(''success'', PBool True), (''platform'', PStr (str ''youtube'')),
              (''url'', PStr url), (''title'', PStr title), (''caption'', PStr caption),
              (''image_url'', PStr (thumbnail (video_id_of url))),
              (''video_id'', PStr (video_id_of url)),
              (''media_type'', PStr (str ''video''))], w'))"
proof (intro conjI impI)
  assume a: "extract_youtube url w = (Inr r, w') \<and> get_success r"
  show "\<exists>sp. make_request url w = (Some sp, w') \<and>
         map_of r ''video_id'' = Some (PStr (video_id_of url)) \<and>
         (video_id_of url \<noteq> [] \<longrightarrow>
            map_of r ''image_url'' = Some (PStr (thumbnail (video_id_of url)))) \<and>
         (video_id_of url = [] \<longrightarrow>
            map_of r ''image_url'' =
              Some (PStr (case og_image sp of None \<Rightarrow> [] | Some m \<Rightarrow> tag_get m)))"
  proof (cases "make_request url w")
    case (Pair o1 w1)
    show ?thesis
    proof (cases o1)
      case None
      with Pair a show ?thesis
        by (auto simp: extract_youtube_def failure_def get_success_def)
    next
      case (Some sp)
      with Pair a have w1: "w1 = w'" and r: "youtube_result url sp = Inr r"
        by (simp_all add: extract_youtube_def)
      from r have "map_of r ''video_id'' = Some (PStr (video_id_of url)) \<and>
         (video_id_of url \<noteq> [] \<longrightarrow>
            map_of r ''image_url'' = Some (PStr (thumbnail (video_id_of url)))) \<and>
         (video_id_of url = [] \<longrightarrow>
            map_of r ''image_url'' =
              Some (PStr (case og_image sp of None \<Rightarrow> [] | Some m \<Rightarrow> tag_get m)))"
        by (auto simp: youtube_result_def Let_def content_or_def tag_content_def tag_get_def
            split: sum.splits option.splits if_splits)
      with Pair Some w1 show ?thesis by blast
    qed
  qed
next
  assume "make_request url w = (Some sp, w') \<and> video_id_of url \<noteq> [] \<and>
    content_or (og_title sp) (str ''YouTube Video'') = Inr title \<and>
    content_or (og_description sp) [] = Inr caption"
  then show "extract_youtube url w =
        (Inr [(''success'', PBool True), (''platform'', PStr (str ''youtube'')),
              (''url'', PStr url), (''title'', PStr title), (''caption'', PStr caption),
              (''image_url'', PStr (thumbnail (video_id_of url))),
              (''video_id'', PStr (video_id_of url)),
              (''media_type'', PStr (str ''video''))], w')"
    by (simp add: extract_youtube_def youtube_result_def Let_def)
qed

theorem youtube_thumbnail_preferred_witness:
  "extract_youtube (str ''https://www.youtube.com/watch?v=abc123'') (serving demo_video_page) =
     (Inr [(''success'', PBool True), (''platform'', PStr (str ''youtube'')),
           (''url'', PStr (str ''https://www.youtube.com/watch?v=abc123'')),
           (''title'', PStr (str ''Demo Video'')), (''caption'', PStr []),
           (''image_url'', PStr (str ''https://img.youtube.com/vi/abc123/maxresdefault.jpg'')),
           (''video_id'', PStr (str ''abc123'')),
           (''media_type'', PStr (str ''video''))],
      (serving demo_video_page)\<lparr>requests := 1\<rparr>)"
proof -
  let ?u = "str ''https://www.youtube.com/watch?v=abc123''"
  have 1: "make_request ?u (serving demo_video_page) =
      (Some demo_video_page, (serving demo_video_page)\<lparr>requests := 1\<rparr>)"
    by (simp add: make_request_def session_get_def serving_def)
  have 2: "video_id_of ?u = str ''abc123''"
    by code_simp
  have 3: "content_or (og_title demo_video_page) (str ''YouTube Video'') = Inr (str ''Demo Video'')"
    "content_or (og_description demo_video_page) [] = Inr []"
    by (simp_all add: demo_video_page_def empty_page_def content_or_def tag_content_def)
  have 4: "str ''abc123'' \<noteq> []" by (simp add: str_def)
  have 5: "thumbnail (str ''abc123'') = str ''https://img.youtube.com/vi/abc123/maxresdefault.jpg''"
    by code_simp
  show ?thesis
    using youtube_thumbnail_preferred [of ?u "serving demo_video_page" _
        "(serving demo_video_page)\<lparr>requests := 1\<rparr>" demo_video_page "str ''Demo Video''" "[]"]
      1 2 3 4 5
    by simp
qed


text \<open>
  C9 does not hold on the code: \<open>detect_platform\<close> lower-cases the URL, but the strategy
  tests \<open>'youtube.com' in url\<close> on the URL as given. A URL with a capital in the host is
  routed to the YouTube strategy, no id is looked for although the \<open>v=\<close> parameter is
  there, and \<open>image_url\<close> is the \<open>og:image\<close> of the page instead of the thumbnail. The same
  URL in lower case gets the thumbnail.
\<close>

theorem youtube_capitalised_host_no_thumbnail:
  "detect_platform ascii_lib (str ''https://www.YouTube.com/watch?v=abc123'') = str ''youtube'' \<and>
   fst (extract' ascii_lib (str ''https://www.YouTube.com/watch?v=abc123'') (serving poster_page)) =
     Inr [(''success'', PBool True), (''platform'', PStr (str ''youtube'')),
          (''url'', PStr (str ''https://www.YouTube.com/watch?v=abc123'')),
          (''title'', PStr (str ''Demo Video'')), (''caption'', PStr []),
          (''image_url'', PStr (str ''https://i.example/p.jpg'')),
          (''video_id'', PStr []),
          (''media_type'', PStr (str ''video''))] \<and>
   fst (extract' ascii_lib (str ''https://www.youtube.com/watch?v=abc123'') (serving poster_page)) =
     Inr [(''success'', PBool True), (''platform'', PStr (str ''youtube'')),
          (''url'', PStr (str ''https://www.youtube.com/watch?v=abc123'')),
          (''title'', PStr (str ''Demo Video'')), (''caption'', PStr []),
          (''image_url'', PStr (str ''https://img.youtube.com/vi/abc123/maxresdefault.jpg'')),
          (''video_id'', PStr (str ''abc123'')),
          (''media_type'', PStr (str ''video''))]"
  by code_simp

section \<open>Idempotence of the cleaning pipeline\<close>

subsection \<open>Token removal\<close>

lemma follows_Cons: "follows W m (c # cs) = ((c = m \<and> cs \<noteq> [] \<and> W (hd cs)) \<or> follows W m cs)"
  by (cases cs) auto

lemma strip_tokens_id: "\<not> follows W m s \<Longrightarrow> strip_tokens W m s = s"
  by (induction s) (auto simp: follows_Cons)

lemma length_strip_tokens_le: "length (strip_tokens W m s) \<le> length s"
proof (induction W m s rule: strip_tokens.induct)
  case (1 W m)
  show ?case by simp
next
  case (2 W m c cs)
  show ?case
  proof (cases "c = m \<and> cs \<noteq> [] \<and> W (hd cs)")
    case True
    then have "length (strip_tokens W m (dropWhile W cs)) \<le> length (dropWhile W cs)"
      using 2 by simp
    also have "\<dots> \<le> length cs" by (rule length_dropWhile_le)
    finally show ?thesis using True by simp
  next
    case False
    then show ?thesis using 2 by auto
  qed
qed

lemma length_strip_tokens_less: "follows W m s \<Longrightarrow> length (strip_tokens W m s) < length s"
proof (induction s)
  case Nil
  then show ?case by simp
next
  case (Cons c cs)
  show ?case
  proof (cases "c = m \<and> cs \<noteq> [] \<and> W (hd cs)")
    case True
    have "length (strip_tokens W m (dropWhile W cs)) \<le> length (dropWhile W cs)"
      by (rule length_strip_tokens_le)
    also have "\<dots> \<le> length cs" by (rule length_dropWhile_le)
    finally show ?thesis using True by simp
  next
    case False
    then have "follows W m cs" using Cons.prems by (auto simp: follows_Cons)
    then show ?thesis using Cons.IH False by auto
  qed
qed

subsection \<open>Runs of periods\<close>

lemma dot_run_Cons: "dot_run (c # cs) = ((c = 46 \<and> cs \<noteq> [] \<and> hd cs = 46) \<or> dot_run cs)"
  by (cases cs) auto

lemma strip_dots_id: "\<not> dot_run s \<Longrightarrow> strip_dots s = s"
  by (induction s) (auto simp: dot_run_Cons)

lemma length_strip_dots_le: "length (strip_dots s) \<le> length s"
proof (induction s rule: strip_dots.induct)
  case 1
  show ?case by simp
next
  case (2 c cs)
  show ?case
  proof (cases "c = 46 \<and> cs \<noteq> [] \<and> hd cs = 46")
    case True
    then have "length (strip_dots (dropWhile (\<lambda>x. x = 46) cs)) \<le> length (dropWhile (\<lambda>x. x = 46) cs)"
      using 2 by simp
    also have "\<dots> \<le> length cs" by (rule length_dropWhile_le)
    finally show ?thesis using True by simp
  next
    case False
    then show ?thesis using 2 by auto
  qed
qed

lemma set_strip_dots: "set (strip_dots s) \<subseteq> set s"
proof (induction s rule: strip_dots.induct)
  case 1
  show ?case by simp
next
  case (2 c cs)
  show ?case
  proof (cases "c = 46 \<and> cs \<noteq> [] \<and> hd cs = 46")
    case True
    then have "set (strip_dots (dropWhile (\<lambda>x. x = 46) cs)) \<subseteq> set (dropWhile (\<lambda>x. x = 46) cs)"
      using 2 by simp
    also have "\<dots> \<subseteq> set cs" by (auto dest: set_dropWhileD)
    finally show ?thesis using True by auto
  next
    case False
    then show ?thesis using 2 by auto
  qed
qed

lemma hd_strip_dots:
  "s \<noteq> [] \<Longrightarrow> hd s \<noteq> 46 \<Longrightarrow> strip_dots s \<noteq> [] \<and> hd (strip_dots s) = hd s"
  by (cases s) auto

lemma no_dot_run_strip_dots: "\<not> dot_run (strip_dots s)"
proof (induction s rule: strip_dots.induct)
  case 1
  show ?case by simp
next
  case (2 c cs)
  show ?case
  proof (cases "c = 46 \<and> cs \<noteq> [] \<and> hd cs = 46")
    case True
    then show ?thesis using 2 by simp
  next
    case False
    then have ih: "\<not> dot_run (strip_dots cs)" using 2 by simp
    have "\<not> (c = 46 \<and> strip_dots cs \<noteq> [] \<and> hd (strip_dots cs) = 46)"
    proof
      assume a: "c = 46 \<and> strip_dots cs \<noteq> [] \<and> hd (strip_dots cs) = 46"
      then have ne: "cs \<noteq> []" by auto
      with a False have "hd cs \<noteq> 46" by simp
      with ne have "hd (strip_dots cs) = hd cs" using hd_strip_dots by blast
      with a \<open>hd cs \<noteq> 46\<close> show False by simp
    qed
    with ih False show ?thesis by (auto simp: dot_run_Cons)
  qed
qed

lemma dot_run_append:
  "dot_run (a @ b) \<longleftrightarrow>
     dot_run a \<or> dot_run b \<or> (a \<noteq> [] \<and> b \<noteq> [] \<and> last a = 46 \<and> hd b = 46)"
proof (induction a)
  case Nil
  show ?case by simp
next
  case (Cons c a)
  show ?case
  proof (cases a)
    case Nil
    then show ?thesis by (auto simp: dot_run_Cons)
  next
    case (Cons d a')
    with Cons.IH show ?thesis by (auto simp: dot_run_Cons)
  qed
qed


subsection \<open>Splitting and joining\<close>

lemma join_space_Cons:
  "join_space (w # ws) = (if ws = [] then w else w @ 32 # join_space ws)"
  by (cases ws) simp_all

lemma is_space_32: "is_space 32"
  by (simp add: is_space_def)

lemma not_emoji_32: "\<not> emoji 32"
  by (simp add: emoji_def)

lemma py_split_Nil: "dropWhile is_space s = [] \<Longrightarrow> py_split s = []"
  by (subst py_split.simps) simp

lemma py_split_Cons:
  "dropWhile is_space s \<noteq> [] \<Longrightarrow>
   py_split s = takeWhile non_space (dropWhile is_space s) #
                py_split (dropWhile non_space (dropWhile is_space s))"
  by (subst py_split.simps) (simp add: Let_def)

lemma py_split_space: "is_space c \<Longrightarrow> py_split (c # s) = py_split s"
  by (subst py_split.simps, subst (2) py_split.simps) simp

lemma py_split_words:
  "w \<in> set (py_split s) \<Longrightarrow> w \<noteq> [] \<and> (\<forall>c\<in>set w. non_space c)"
proof (induction s rule: py_split.induct)
  case (1 s)
  let ?t = "dropWhile is_space s"
  show ?case
  proof (cases "?t = []")
    case True
    with 1 show ?thesis by (simp add: py_split_Nil)
  next
    case False
    then have nsp: "non_space (hd ?t)"
      using hd_dropWhile [of is_space s] by (simp add: non_space_def)
    from 1(2) False consider "w = takeWhile non_space ?t"
      | "w \<in> set (py_split (dropWhile non_space ?t))"
      by (auto simp: py_split_Cons)
    then show ?thesis
    proof cases
      case 1
      have "takeWhile non_space ?t \<noteq> []"
        using False nsp by (cases ?t) auto
      moreover have "\<forall>c\<in>set (takeWhile non_space ?t). non_space c"
        by (auto dest: set_takeWhileD)
      ultimately show ?thesis using 1 by simp
    next
      case 2
      then show ?thesis using "1.IH" [OF refl False] by simp
    qed
  qed
qed

lemma py_split_join:
  "(\<forall>w\<in>set ws. w \<noteq> [] \<and> (\<forall>c\<in>set w. non_space c)) \<Longrightarrow> py_split (join_space ws) = ws"
proof (induction ws rule: join_space.induct)
  case 1
  show ?case by (simp add: py_split_Nil)
next
  case (2 w)
  then have w: "w \<noteq> []" "\<forall>c\<in>set w. non_space c" by simp_all
  then have d: "dropWhile is_space w = w"
    by (cases w) (auto simp: non_space_def)
  have t: "takeWhile non_space w = w" using w by simp
  have r: "dropWhile non_space w = []" using w by simp
  show ?case by (simp add: py_split_Cons d w t r py_split_Nil)
next
  case (3 w v ws)
  then have w: "w \<noteq> []" "\<forall>c\<in>set w. non_space c" by simp_all
  let ?rest = "join_space (v # ws)"
  have ih: "py_split ?rest = v # ws" using 3 by simp
  have d: "dropWhile is_space (w @ 32 # ?rest) = w @ 32 # ?rest"
    using w by (cases w) (auto simp: non_space_def)
  have t: "takeWhile non_space (w @ 32 # ?rest) = w"
    using w by (simp add: non_space_def is_space_32)
  have r: "dropWhile non_space (w @ 32 # ?rest) = 32 # ?rest"
    using w by (simp add: non_space_def is_space_32)
  have "py_split (w @ 32 # ?rest) = w # py_split (32 # ?rest)"
    using py_split_Cons [of "w @ 32 # ?rest"] d t r by simp
  also have "py_split (32 # ?rest) = py_split ?rest"
    using is_space_32 by (rule py_split_space)
  finally show ?case using ih by simp
qed

lemma join_split_idem:
  "join_space (py_split (join_space (py_split s))) = join_space (py_split s)"
proof -
  have "py_split (join_space (py_split s)) = py_split s"
    by (rule py_split_join) (auto dest: py_split_words)
  then show ?thesis by simp
qed

lemma set_join_space: "set (join_space ws) \<subseteq> insert 32 (\<Union>w\<in>set ws. set w)"
  by (induction ws rule: join_space.induct) auto

lemma set_py_split: "w \<in> set (py_split s) \<Longrightarrow> set w \<subseteq> set s"
proof (induction s rule: py_split.induct)
  case (1 s)
  let ?t = "dropWhile is_space s"
  show ?case
  proof (cases "?t = []")
    case True
    with 1 show ?thesis by (simp add: py_split_Nil)
  next
    case False
    have ts: "set ?t \<subseteq> set s" by (auto dest: set_dropWhileD)
    from 1(2) False consider "w = takeWhile non_space ?t"
      | "w \<in> set (py_split (dropWhile non_space ?t))"
      by (auto simp: py_split_Cons)
    then show ?thesis
    proof cases
      case 1
      then show ?thesis using ts by (auto dest: set_takeWhileD)
    next
      case 2
      then have "set w \<subseteq> set (dropWhile non_space ?t)" using "1.IH" [OF refl False] by simp
      also have "\<dots> \<subseteq> set ?t" by (auto dest: set_dropWhileD)
      finally show ?thesis using ts by auto
    qed
  qed
qed

lemma set_join_split: "set (join_space (py_split s)) \<subseteq> insert 32 (set s)"
  using set_join_space [of "py_split s"] set_py_split [of _ s] by blast

lemma length_join_split: "length (join_space (py_split s)) \<le> length (dropWhile is_space s)"
proof (induction s rule: py_split.induct)
  case (1 s)
  let ?t = "dropWhile is_space s"
  show ?case
  proof (cases "?t = []")
    case True
    then show ?thesis by (simp add: py_split_Nil)
  next
    case False
    let ?w = "takeWhile non_space ?t" and ?r = "dropWhile non_space ?t"
    have ih: "length (join_space (py_split ?r)) \<le> length (dropWhile is_space ?r)"
      using "1.IH" [OF refl False] .
    have len: "length ?w + length ?r = length ?t"
      using takeWhile_dropWhile_id [of non_space ?t] by (metis length_append)
    show ?thesis
    proof (cases "py_split ?r = []")
      case True
      then show ?thesis using False len by (simp add: py_split_Cons join_space_Cons)
    next
      case ne: False
      have rne: "?r \<noteq> []"
      proof
        assume "?r = []"
        then have "py_split ?r = py_split []" by (rule arg_cong)
        with ne show False by (simp add: py_split_Nil)
      qed
      then have "\<not> non_space (hd ?r)" by (rule hd_dropWhile)
      then have "is_space (hd ?r)" by (simp add: non_space_def)
      then have eq: "dropWhile is_space ?r = dropWhile is_space (tl ?r)"
        using rne by (cases ?r) auto
      have "length (dropWhile is_space ?r) \<le> length (tl ?r)"
        by (subst eq) (rule length_dropWhile_le)
      moreover have "Suc (length (tl ?r)) = length ?r"
        using rne by (cases ?r) auto
      ultimately have "Suc (length (dropWhile is_space ?r)) \<le> length ?r"
        by linarith
      then show ?thesis using False ne ih len by (simp add: py_split_Cons join_space_Cons)
    qed
  qed
qed

lemma no_dot_run_join_split: "\<not> dot_run s \<Longrightarrow> \<not> dot_run (join_space (py_split s))"
proof (induction s rule: py_split.induct)
  case (1 s)
  let ?t = "dropWhile is_space s"
  show ?case
  proof (cases "?t = []")
    case True
    then show ?thesis by (simp add: py_split_Nil)
  next
    case False
    let ?w = "takeWhile non_space ?t" and ?r = "dropWhile non_space ?t"
    have "\<not> dot_run (takeWhile is_space s @ ?t)" using 1(2) by simp
    then have t: "\<not> dot_run ?t" unfolding dot_run_append by blast
    then have "\<not> dot_run (?w @ ?r)" by simp
    then have w: "\<not> dot_run ?w" and r: "\<not> dot_run ?r" unfolding dot_run_append by blast+
    have ih: "\<not> dot_run (join_space (py_split ?r))"
      using "1.IH" [OF refl False r] .
    show ?thesis
    proof (cases "py_split ?r = []")
      case True
      then show ?thesis using False w by (simp add: py_split_Cons join_space_Cons)
    next
      case ne: False
      have "\<not> dot_run (?w @ 32 # join_space (py_split ?r))"
        using w ih by (simp add: dot_run_append dot_run_Cons)
      then show ?thesis using False ne by (simp add: py_split_Cons join_space_Cons)
    qed
  qed
qed


subsection \<open>The pipeline\<close>

lemma set_strip_tokens: "set (strip_tokens W m s) \<subseteq> set s"
proof (induction W m s rule: strip_tokens.induct)
  case (1 W m)
  show ?case by simp
next
  case (2 W m c cs)
  show ?case
  proof (cases "c = m \<and> cs \<noteq> [] \<and> W (hd cs)")
    case True
    then have "set (strip_tokens W m (dropWhile W cs)) \<subseteq> set (dropWhile W cs)"
      using 2 by simp
    also have "\<dots> \<subseteq> set cs" by (auto dest: set_dropWhileD)
    finally show ?thesis using True by auto
  next
    case False
    then show ?thesis using 2 by auto
  qed
qed

lemma follows_marker: "follows W m s \<Longrightarrow> m \<in> set s"
  by (induction s) (auto simp: follows_Cons)

lemma set_strip_social_noise: "set (strip_social_noise W x) \<subseteq> insert 32 (set x)"
proof -
  have "set (strip_social_noise W x) \<subseteq>
      insert 32 (set (strip_dots (filter (\<lambda>c. \<not> emoji c) (strip_tokens W 64 (strip_tokens W 35 x)))))"
    unfolding strip_social_noise_def Let_def by (rule set_join_split)
  also have "\<dots> \<subseteq> insert 32 (set (strip_tokens W 64 (strip_tokens W 35 x)))"
    using set_strip_dots [of "filter (\<lambda>c. \<not> emoji c) (strip_tokens W 64 (strip_tokens W 35 x))"]
    by auto
  also have "\<dots> \<subseteq> insert 32 (set x)"
    using set_strip_tokens [of W 64 "strip_tokens W 35 x"] set_strip_tokens [of W 35 x] by auto
  finally show ?thesis .
qed

lemma no_emoji_strip_social_noise: "c \<in> set (strip_social_noise W x) \<Longrightarrow> \<not> emoji c"
proof -
  assume c: "c \<in> set (strip_social_noise W x)"
  let ?f = "filter (\<lambda>c. \<not> emoji c) (strip_tokens W 64 (strip_tokens W 35 x))"
  have "set (strip_social_noise W x) \<subseteq> insert 32 (set (strip_dots ?f))"
    unfolding strip_social_noise_def Let_def by (rule set_join_split)
  with c have "c = 32 \<or> c \<in> set (strip_dots ?f)" by auto
  then show ?thesis
  proof
    assume "c = 32"
    then show ?thesis by (simp add: not_emoji_32)
  next
    assume "c \<in> set (strip_dots ?f)"
    then have "c \<in> set ?f" using set_strip_dots [of ?f] by auto
    then show ?thesis by simp
  qed
qed

lemma no_dot_run_strip_social_noise: "\<not> dot_run (strip_social_noise W x)"
  unfolding strip_social_noise_def Let_def
  by (intro no_dot_run_join_split no_dot_run_strip_dots)

lemma join_split_strip_social_noise:
  "join_space (py_split (strip_social_noise W x)) = strip_social_noise W x"
  unfolding strip_social_noise_def Let_def by (rule join_split_idem)

lemma length_strip_social_noise:
  "length (strip_social_noise W s) \<le> length (strip_tokens W 64 (strip_tokens W 35 s))"
proof -
  let ?t = "strip_tokens W 64 (strip_tokens W 35 s)"
  let ?f = "filter (\<lambda>c. \<not> emoji c) ?t"
  have "length (strip_social_noise W s) \<le> length (dropWhile is_space (strip_dots ?f))"
    unfolding strip_social_noise_def Let_def by (rule length_join_split)
  also have "\<dots> \<le> length (strip_dots ?f)" by (rule length_dropWhile_le)
  also have "\<dots> \<le> length ?f" by (rule length_strip_dots_le)
  also have "\<dots> \<le> length ?t" by (rule length_filter_le)
  finally show ?thesis .
qed

lemma strip_social_noise_shrinks:
  assumes "has_token W y"
  shows "length (strip_social_noise W y) < length y"
proof (cases "follows W 35 y")
  case True
  have "length (strip_social_noise W y) \<le> length (strip_tokens W 64 (strip_tokens W 35 y))"
    by (rule length_strip_social_noise)
  also have "\<dots> \<le> length (strip_tokens W 35 y)" by (rule length_strip_tokens_le)
  also have "\<dots> < length y" using True by (rule length_strip_tokens_less)
  finally show ?thesis .
next
  case False
  then have at: "follows W 64 y" using assms by (simp add: has_token_def)
  have id: "strip_tokens W 35 y = y" using False by (rule strip_tokens_id)
  have "length (strip_social_noise W y) \<le> length (strip_tokens W 64 (strip_tokens W 35 y))"
    by (rule length_strip_social_noise)
  also have "\<dots> < length y" unfolding id using at by (rule length_strip_tokens_less)
  finally show ?thesis .
qed

lemma strip_social_noise_fixed:
  assumes "\<not> has_token W (strip_social_noise W x)"
  shows "strip_social_noise W (strip_social_noise W x) = strip_social_noise W x"
proof -
  let ?y = "strip_social_noise W x"
  have 1: "strip_tokens W 35 ?y = ?y"
    using assms by (intro strip_tokens_id) (simp add: has_token_def)
  have 2: "strip_tokens W 64 ?y = ?y"
    using assms by (intro strip_tokens_id) (simp add: has_token_def)
  have 3: "filter (\<lambda>c. \<not> emoji c) ?y = ?y"
    by (rule filter_True) (simp add: no_emoji_strip_social_noise)
  have 4: "strip_dots ?y = ?y"
    by (rule strip_dots_id) (rule no_dot_run_strip_social_noise)
  have 5: "join_space (py_split ?y) = ?y"
    by (rule join_split_strip_social_noise)
  have "strip_social_noise W ?y =
      join_space (py_split (strip_dots (filter (\<lambda>c. \<not> emoji c)
        (strip_tokens W 64 (strip_tokens W 35 ?y)))))"
    by (simp add: strip_social_noise_def [of W ?y] Let_def)
  also have "\<dots> = ?y" by (simp only: 1 2 3 4 5)
  finally show ?thesis .
qed

text \<open>
  C7, as stated, fails: on \<open>#..a\<close> the first pass leaves \<open>#a\<close>, because the periods are
  removed after the hashtag pass has looked at the text, and the second pass removes it.
\<close>

theorem strip_social_noise_not_idempotent:
  "strip_social_noise ascii_word (strip_social_noise ascii_word (str ''#..a''))
     \<noteq> strip_social_noise ascii_word (str ''#..a'')"
  by (simp add: strip_social_noise_def str_def emoji_def py_split_Cons py_split_Nil
      is_space_def non_space_def ascii_word_def ascii_alnum_def ascii_alpha_def)

lemma strip_social_noise_hidden_token:
  assumes "W 97" and "\<not> W 46"
  shows "strip_social_noise W (str ''#..a'') = str ''#a''"
    and "strip_social_noise W (str ''#a'') = []"
  using assms
  by (simp_all add: strip_social_noise_def str_def emoji_def py_split_Cons py_split_Nil
      is_space_def non_space_def)

text \<open>
  C7, amended: a second pass changes nothing exactly when the first pass left no hashtag
  or mention token (no \<open>#\<close> or \<open>@\<close> directly before a word character); in particular the
  pipeline is idempotent on every input that contains neither \<open>#\<close> nor \<open>@\<close>.
\<close>

theorem strip_social_noise_idempotent_iff:
  "(strip_social_noise W (strip_social_noise W x) = strip_social_noise W x \<longleftrightarrow>
      \<not> has_token W (strip_social_noise W x)) \<and>
   (35 \<notin> set x \<and> 64 \<notin> set x \<longrightarrow>
      strip_social_noise W (strip_social_noise W x) = strip_social_noise W x)"
proof (intro conjI iffI impI)
  assume eq: "strip_social_noise W (strip_social_noise W x) = strip_social_noise W x"
  show "\<not> has_token W (strip_social_noise W x)"
  proof
    assume "has_token W (strip_social_noise W x)"
    then have "length (strip_social_noise W (strip_social_noise W x))
        < length (strip_social_noise W x)"
      by (rule strip_social_noise_shrinks)
    with eq show False by simp
  qed
next
  assume "\<not> has_token W (strip_social_noise W x)"
  then show "strip_social_noise W (strip_social_noise W x) = strip_social_noise W x"
    by (rule strip_social_noise_fixed)
next
  assume a: "35 \<notin> set x \<and> 64 \<notin> set x"
  have "35 \<notin> set (strip_social_noise W x)" "64 \<notin> set (strip_social_noise W x)"
    using a set_strip_social_noise [of W x] by auto
  then have "\<not> has_token W (strip_social_noise W x)"
    unfolding has_token_def using follows_marker by blast
  then show "strip_social_noise W (strip_social_noise W x) = strip_social_noise W x"
    by (rule strip_social_noise_fixed)
qed

theorem strip_social_noise_idempotent_iff_witness:
  "strip_social_noise ascii_word (strip_social_noise ascii_word (str ''a #b.. @c d.''))
     = strip_social_noise ascii_word (str ''a #b.. @c d.'') \<and>
   strip_social_noise ascii_word (strip_social_noise ascii_word (str ''a ..  b''))
     = strip_social_noise ascii_word (str ''a ..  b'')"
proof -
  have "strip_social_noise ascii_word (str ''a #b.. @c d.'') = str ''a d.''"
    by (simp add: strip_social_noise_def str_def emoji_def py_split_Cons py_split_Nil
        is_space_def non_space_def ascii_word_def ascii_alnum_def ascii_alpha_def)
  then have 1: "\<not> has_token ascii_word (strip_social_noise ascii_word (str ''a #b.. @c d.''))"
    by (simp add: has_token_def str_def)
  have 2: "35 \<notin> set (str ''a ..  b'') \<and> 64 \<notin> set (str ''a ..  b'')"
    by (simp add: str_def)
  show ?thesis
    using strip_social_noise_idempotent_iff [of ascii_word "str ''a #b.. @c d.''"]
      strip_social_noise_idempotent_iff [of ascii_word "str ''a ..  b''"] 1 2
    by blast
qed

section \<open>The record invariant\<close>

text \<open>
  Every result of \<open>extract\<close> on a non-empty URL satisfies the invariant, except a success of
  the Instagram strategy whose caption is not a string.
\<close>

lemma failure_invariant: "msg \<noteq> [] \<Longrightarrow> result_invariant (failure msg)"
  by (simp add: result_invariant_def failure_def populated_def)

lemma og_result_invariant:
  assumes "og_result platform dflt media url sp = Inr r"
    and "url \<noteq> []" and "platform \<noteq> []" and "media \<noteq> []"
  shows "result_invariant r"
  using assms
  by (auto simp: og_result_def result_invariant_def populated_def present_str_def
      split: sum.splits)

lemma og_strategy_invariant:
  assumes "og_strategy msg platform dflt media url w = (Inr r, w')"
    and "url \<noteq> []" and "msg \<noteq> []" and "platform \<noteq> []" and "media \<noteq> []"
  shows "result_invariant r"
proof (cases "make_request url w")
  case (Pair o1 w1)
  show ?thesis
  proof (cases o1)
    case None
    with Pair assms(1) have "r = failure msg" by (simp add: og_strategy_def)
    then show ?thesis using assms(3) by (simp add: failure_invariant)
  next
    case (Some sp)
    with Pair assms(1) have "og_result platform dflt media url sp = Inr r"
      by (simp add: og_strategy_def)
    then show ?thesis using assms(2,4,5) by (rule og_result_invariant)
  qed
qed

lemma youtube_invariant:
  assumes "extract_youtube url w = (Inr r, w')" and "url \<noteq> []"
  shows "result_invariant r"
proof (cases "make_request url w")
  case (Pair o1 w1)
  show ?thesis
  proof (cases o1)
    case None
    with Pair assms(1) have "r = failure (str ''Failed to fetch YouTube video'')"
      by (simp add: extract_youtube_def)
    then show ?thesis by (simp add: failure_invariant str_def)
  next
    case (Some sp)
    with Pair assms(1) have "youtube_result url sp = Inr r"
      by (simp add: extract_youtube_def)
    then show ?thesis using assms(2)
      by (auto simp: youtube_result_def Let_def result_invariant_def populated_def
          present_str_def str_def split: sum.splits if_splits)
  qed
qed

lemma generic_invariant:
  assumes "extract_generic url w = (Inr r, w')" and "url \<noteq> []"
  shows "result_invariant r"
proof (cases "make_request url w")
  case (Pair o1 w1)
  show ?thesis
  proof (cases o1)
    case None
    with Pair assms(1) have "r = failure (str ''Failed to fetch webpage'')"
      by (simp add: extract_generic_def)
    then show ?thesis by (simp add: failure_invariant str_def)
  next
    case (Some sp)
    with Pair assms(1) have "generic_result url sp = Inr r"
      by (simp add: extract_generic_def)
    then show ?thesis using assms(2)
      by (auto simp: generic_result_def Let_def result_invariant_def populated_def
          present_str_def str_def split: sum.splits)
  qed
qed

lemma twitter_fallback_invariant: "url \<noteq> [] \<Longrightarrow> result_invariant (twitter_fallback lib url)"
  by (simp add: twitter_fallback_def Let_def result_invariant_def populated_def
      present_str_def str_def)

lemma oembed_invariant:
  assumes "oembed_result lib url h = Some r" and "url \<noteq> []"
  shows "result_invariant r"
  using assms
  by (auto simp: oembed_result_def result_invariant_def populated_def present_str_def str_def
      split: http.splits if_splits pyval.splits Option.bind_splits)

lemma page_result_invariant:
  assumes "page_result lib url sp = Some (Inr r)" and "url \<noteq> []"
  shows "result_invariant r"
  using assms
  by (auto simp: page_result_def Let_def result_invariant_def populated_def present_str_def
      str_def split: if_splits sum.splits)

lemma twitter_invariant:
  assumes "extract_twitter lib url w = (Inr r, w')" and "url \<noteq> []"
  shows "result_invariant r"
proof -
  obtain h w1 where g: "session_get (str ''https://publish.twitter.com/oembed?url='' @ url_quote lib url) w = (h, w1)"
    by (cases "session_get (str ''https://publish.twitter.com/oembed?url='' @ url_quote lib url) w")
  show ?thesis
  proof (cases "oembed_result lib url h")
    case (Some r0)
    with g assms(1) have "r0 = r" by (simp add: extract_twitter_def)
    with Some show ?thesis using assms(2) oembed_invariant by blast
  next
    case None
    obtain o2 w2 where m: "make_request url w1 = (o2, w2)" by (cases "make_request url w1")
    show ?thesis
    proof (cases o2)
      case n2: None
      with g None m assms(1) have "r = twitter_fallback lib url"
        by (simp add: extract_twitter_def)
      then show ?thesis using assms(2) by (simp add: twitter_fallback_invariant)
    next
      case (Some sp)
      show ?thesis
      proof (cases "page_result lib url sp")
        case n3: None
        with g None m Some assms(1) have "r = twitter_fallback lib url"
          by (simp add: extract_twitter_def)
        then show ?thesis using assms(2) by (simp add: twitter_fallback_invariant)
      next
        case s3: (Some res)
        with g None m Some assms(1) have "res = Inr r"
          by (simp add: extract_twitter_def)
        with s3 show ?thesis using assms(2) page_result_invariant by blast
      qed
    qed
  qed
qed

lemma instagram_invariant:
  assumes "extract_instagram lib url w = (Inr r, w')" and "url \<noteq> []"
    and "present_str (map_of r ''caption'') \<or> \<not> get_success r"
  shows "result_invariant r"
proof (cases "make_request url w")
  case (Pair o1 w1)
  show ?thesis
  proof (cases o1)
    case None
    with Pair assms(1) have "r = failure (str ''Failed to fetch Instagram post'')"
      by (simp add: extract_instagram_def)
    then show ?thesis by (simp add: failure_invariant str_def)
  next
    case (Some sp)
    with Pair assms(1) have "instagram_result lib url sp = Inr r"
      by (simp add: extract_instagram_def)
    then show ?thesis using assms(2,3)
      by (auto simp: instagram_result_def result_invariant_def populated_def
          present_str_def str_def get_success_def split: sum.splits prod.splits)
  qed
qed

lemma extract_invariant_elsewhere:
  assumes "extract' lib url w = (Inr r, w')" and "url \<noteq> []"
    and "detect_platform lib url \<noteq> str ''instagram'' \<or> present_str (map_of r ''caption'') \<or> \<not> get_success r"
  shows "result_invariant r"
proof (cases "is_valid_url lib url")
  case False
  with assms(1) have "r = failure (str ''Invalid URL format'')" by (simp add: extract'_def)
  then show ?thesis by (simp add: failure_invariant str_def)
next
  case True
  have ne: "str ''Failed to fetch Facebook post'' \<noteq> []" "str ''facebook'' \<noteq> []"
    "str ''post'' \<noteq> []" "str ''Failed to fetch TikTok video'' \<noteq> []" "str ''tiktok'' \<noteq> []"
    "str ''video'' \<noteq> []" "str ''Failed to fetch LinkedIn post'' \<noteq> []" "str ''linkedin'' \<noteq> []"
    "str ''Failed to fetch Reddit post'' \<noteq> []" "str ''reddit'' \<noteq> []"
    "str ''Failed to fetch Pinterest pin'' \<noteq> []" "str ''pinterest'' \<noteq> []" "str ''image'' \<noteq> []"
    by (simp_all add: str_def)
  let ?p = "detect_platform lib url"
  consider "?p = str ''instagram''" | "?p = str ''twitter''" | "?p = str ''facebook''"
    | "?p = str ''youtube''" | "?p = str ''tiktok''" | "?p = str ''linkedin''"
    | "?p = str ''reddit''" | "?p = str ''pinterest''"
    | "?p \<noteq> str ''instagram'' \<and> ?p \<noteq> str ''twitter'' \<and> ?p \<noteq> str ''facebook'' \<and>
       ?p \<noteq> str ''youtube'' \<and> ?p \<noteq> str ''tiktok'' \<and> ?p \<noteq> str ''linkedin'' \<and>
       ?p \<noteq> str ''reddit'' \<and> ?p \<noteq> str ''pinterest''"
    by blast
  then show ?thesis
  proof cases
    case 1
    with True assms(1) have "extract_instagram lib url w = (Inr r, w')"
      by (simp add: extract'_def extractors_def str_def)
    then show ?thesis using assms(2,3) 1 by (intro instagram_invariant) auto
  next
    case 2
    with True assms(1) have "extract_twitter lib url w = (Inr r, w')"
      by (simp add: extract'_def extractors_def str_def)
    then show ?thesis using assms(2) by (rule twitter_invariant)
  next
    case 3
    with True assms(1) have "extract_facebook url w = (Inr r, w')"
      by (simp add: extract'_def extractors_def str_def)
    then show ?thesis unfolding extract_facebook_def using assms(2) ne
      by (blast intro: og_strategy_invariant)
  next
    case 4
    with True assms(1) have "extract_youtube url w = (Inr r, w')"
      by (simp add: extract'_def extractors_def str_def)
    then show ?thesis using assms(2) by (rule youtube_invariant)
  next
    case 5
    with True assms(1) have "extract_tiktok url w = (Inr r, w')"
      by (simp add: extract'_def extractors_def str_def)
    then show ?thesis unfolding extract_tiktok_def using assms(2) ne
      by (blast intro: og_strategy_invariant)
  next
    case 6
    with True assms(1) have "extract_linkedin url w = (Inr r, w')"
      by (simp add: extract'_def extractors_def str_def)
    then show ?thesis unfolding extract_linkedin_def using assms(2) ne
      by (blast intro: og_strategy_invariant)
  next
    case 7
    with True assms(1) have "extract_reddit url w = (Inr r, w')"
      by (simp add: extract'_def extractors_def str_def)
    then show ?thesis unfolding extract_reddit_def using assms(2) ne
      by (blast intro: og_strategy_invariant)
  next
    case 8
    with True assms(1) have "extract_pinterest url w = (Inr r, w')"
      by (simp add: extract'_def extractors_def str_def)
    then show ?thesis unfolding extract_pinterest_def using assms(2) ne
      by (blast intro: og_strategy_invariant)
  next
    case 9
    then have "map_of (extractors lib) ?p = None"
      by (simp add: extractors_def)
    with True assms(1) have "extract_generic url w = (Inr r, w')"
      by (simp add: extract'_def)
    then show ?thesis using assms(2) by (rule generic_invariant)
  qed
qed

text \<open>
  C1 does not hold on the code: on an Instagram page whose blob carries \<open>"text": null\<close> the
  strategy returns a success whose \<open>caption\<close> is \<open>None\<close>.
\<close>

theorem instagram_null_caption:
  "fst (extract' ascii_lib (str ''https://www.instagram.com/p/abc/'') (serving null_caption_page)) =
     Inr [(''success'', PBool True), (''platform'', PStr (str ''instagram'')),
          (''url'', PStr (str ''https://www.instagram.com/p/abc/'')),
          (''title'', PStr (str ''Instagram Post'')), (''caption'', PNone),
          (''image_url'', PStr []), (''author'', PStr []),
          (''media_type'', PStr (str ''post''))] \<and>
   \<not> result_invariant
     [(''success'', PBool True), (''platform'', PStr (str ''instagram'')),
      (''url'', PStr (str ''https://www.instagram.com/p/abc/'')),
      (''title'', PStr (str ''Instagram Post'')), (''caption'', PNone),
      (''image_url'', PStr []), (''author'', PStr []),
      (''media_type'', PStr (str ''post''))]"
  by code_simp

section \<open>Exceptions\<close>

text \<open>
  Outside Instagram, \<open>extract\<close> returns a result whenever no fetched page has an Open Graph
  tag without its \<open>content\<close> attribute.
\<close>

lemma session_get_net: "session_get u w = (h, w1) \<Longrightarrow> net w1 = net w \<and> h = net w (requests w) u"
  by (auto simp: session_get_def)

lemma make_request_net: "make_request u w = (o1, w1) \<Longrightarrow> net w1 = net w"
  by (auto simp: make_request_def session_get_def split: http.splits if_splits)

lemma make_request_page:
  "make_request u w = (Some sp, w1) \<Longrightarrow> \<exists>r. net w (requests w) u = Response r \<and> document r = sp"
  by (auto simp: make_request_def session_get_def split: http.splits if_splits)

lemma content_or_well: "tag \<noteq> Some None \<Longrightarrow> \<exists>s. content_or tag d = Inr s"
  by (cases tag) (auto simp: content_or_def tag_content_def)

lemma og_result_returns:
  assumes "well_tagged sp"
  shows "\<exists>r. og_result platform dflt media url sp = Inr r"
proof -
  from assms obtain t c i where "content_or (og_title sp) dflt = Inr t"
    "content_or (og_description sp) [] = Inr c" "content_or (og_image sp) [] = Inr i"
    unfolding well_tagged_def using content_or_well by metis
  then show ?thesis by (simp add: og_result_def)
qed

lemma youtube_result_returns:
  assumes "well_tagged sp"
  shows "\<exists>r. youtube_result url sp = Inr r"
proof -
  from assms obtain t c i where "content_or (og_title sp) (str ''YouTube Video'') = Inr t"
    "content_or (og_description sp) [] = Inr c" "content_or (og_image sp) [] = Inr i"
    unfolding well_tagged_def using content_or_well by metis
  then show ?thesis by (simp add: youtube_result_def Let_def)
qed

lemma generic_result_returns:
  assumes "well_tagged sp"
  shows "\<exists>r. generic_result url sp = Inr r"
proof -
  from assms obtain t c i where "content_or (og_title sp) (str ''Untitled'') = Inr t"
    "content_or (og_description sp) [] = Inr c" "content_or (og_image sp) [] = Inr i"
    unfolding well_tagged_def using content_or_well by metis
  then show ?thesis by (simp add: generic_result_def Let_def split: option.splits)
qed

lemma page_result_returns:
  assumes "well_tagged sp" and "page_result lib url sp = Some res"
  shows "\<exists>r. res = Inr r"
proof -
  from assms(1) obtain i where i: "content_or (og_image sp) [] = Inr i"
    unfolding well_tagged_def using content_or_well by metis
  from assms(1) have t: "og_title sp = None \<or> (\<exists>s. og_title sp = Some (Some s))"
    unfolding well_tagged_def by (cases "og_title sp") auto
  from assms(2) i t show ?thesis
    by (auto simp: page_result_def Let_def tag_content_def split: if_splits)
qed

lemma extract_returns_on_well_tagged_pages:
  assumes wt: "\<forall>n u r. net w n u = Response r \<longrightarrow> well_tagged (document r)"
    and ni: "detect_platform lib url \<noteq> str ''instagram''"
  shows "\<exists>r. fst (extract' lib url w) = Inr r"
proof (cases "is_valid_url lib url")
  case False
  then show ?thesis by (simp add: extract'_def)
next
  case True
  have fetched: "well_tagged sp" if "make_request u v = (Some sp, v')" "net v = net w" for u v sp v'
    using make_request_page [OF that(1)] that(2) wt by auto
  have og: "\<exists>r. fst (og_strategy msg platform dflt media url w) = Inr r" for msg platform dflt media
  proof (cases "make_request url w")
    case (Pair o1 w1)
    show ?thesis
    proof (cases o1)
      case None
      with Pair show ?thesis by (simp add: og_strategy_def)
    next
      case (Some sp)
      with Pair have "well_tagged sp" using fetched by blast
      then obtain r where "og_result platform dflt media url sp = Inr r"
        using og_result_returns by blast
      with Pair Some show ?thesis by (simp add: og_strategy_def)
    qed
  qed
  have yt: "\<exists>r. fst (extract_youtube url w) = Inr r"
  proof (cases "make_request url w")
    case (Pair o1 w1)
    show ?thesis
    proof (cases o1)
      case None
      with Pair show ?thesis by (simp add: extract_youtube_def)
    next
      case (Some sp)
      with Pair have "well_tagged sp" using fetched by blast
      then obtain r where "youtube_result url sp = Inr r"
        using youtube_result_returns by blast
      with Pair Some show ?thesis by (simp add: extract_youtube_def)
    qed
  qed
  have ge: "\<exists>r. fst (extract_generic url w) = Inr r"
  proof (cases "make_request url w")
    case (Pair o1 w1)
    show ?thesis
    proof (cases o1)
      case None
      with Pair show ?thesis by (simp add: extract_generic_def)
    next
      case (Some sp)
      with Pair have "well_tagged sp" using fetched by blast
      then obtain r where "generic_result url sp = Inr r"
        using generic_result_returns by blast
      with Pair Some show ?thesis by (simp add: extract_generic_def)
    qed
  qed
  have tw: "\<exists>r. fst (extract_twitter lib url w) = Inr r"
  proof -
    obtain h w1 where g: "session_get (str ''https://publish.twitter.com/oembed?url='' @ url_quote lib url) w = (h, w1)"
      by (cases "session_get (str ''https://publish.twitter.com/oembed?url='' @ url_quote lib url) w")
    then have n1: "net w1 = net w" using session_get_net by blast
    show ?thesis
    proof (cases "oembed_result lib url h")
      case (Some r0)
      with g show ?thesis by (simp add: extract_twitter_def)
    next
      case None
      obtain o2 w2 where m: "make_request url w1 = (o2, w2)" by (cases "make_request url w1")
      show ?thesis
      proof (cases o2)
        case n2: None
        with g None m show ?thesis by (simp add: extract_twitter_def)
      next
        case (Some sp)
        with m n1 have wsp: "well_tagged sp" using fetched by blast
        show ?thesis
        proof (cases "page_result lib url sp")
          case n3: None
          with g None m Some show ?thesis by (simp add: extract_twitter_def)
        next
          case s3: (Some res)
          with wsp obtain r where "res = Inr r" using page_result_returns by blast
          with g None m Some s3 show ?thesis by (simp add: extract_twitter_def)
        qed
      qed
    qed
  qed
  let ?p = "detect_platform lib url"
  consider "?p = str ''twitter''" | "?p = str ''facebook''"
    | "?p = str ''youtube''" | "?p = str ''tiktok''" | "?p = str ''linkedin''"
    | "?p = str ''reddit''" | "?p = str ''pinterest''"
    | "?p \<noteq> str ''instagram'' \<and> ?p \<noteq> str ''twitter'' \<and> ?p \<noteq> str ''facebook'' \<and>
       ?p \<noteq> str ''youtube'' \<and> ?p \<noteq> str ''tiktok'' \<and> ?p \<noteq> str ''linkedin'' \<and>
       ?p \<noteq> str ''reddit'' \<and> ?p \<noteq> str ''pinterest''"
    using ni by blast
  then show ?thesis
  proof cases
    case 1
    then show ?thesis using True tw by (simp add: extract'_def extractors_def str_def)
  next
    case 2
    then show ?thesis using True og [of "str ''Failed to fetch Facebook post''"]
      by (simp add: extract'_def extractors_def str_def extract_facebook_def)
  next
    case 3
    then show ?thesis using True yt by (simp add: extract'_def extractors_def str_def)
  next
    case 4
    then show ?thesis using True og [of "str ''Failed to fetch TikTok video''"]
      by (simp add: extract'_def extractors_def str_def extract_tiktok_def)
  next
    case 5
    then show ?thesis using True og [of "str ''Failed to fetch LinkedIn post''"]
      by (simp add: extract'_def extractors_def str_def extract_linkedin_def)
  next
    case 6
    then show ?thesis using True og [of "str ''Failed to fetch Reddit post''"]
      by (simp add: extract'_def extractors_def str_def extract_reddit_def)
  next
    case 7
    then show ?thesis using True og [of "str ''Failed to fetch Pinterest pin''"]
      by (simp add: extract'_def extractors_def str_def extract_pinterest_def)
  next
    case 8
    then have "map_of (extractors lib) ?p = None"
      by (simp add: extractors_def)
    then show ?thesis using True ge by (simp add: extract'_def)
  qed
qed

text \<open>
  C5 does not hold on the code: \<open>tag['content']\<close> on an \<open>og:title\<close> tag without a \<open>content\<close>
  attribute raises \<open>KeyError\<close>, which leaves \<open>extract\<close> and the retry wrapper.
\<close>

theorem facebook_bare_title_raises:
  "fst (extract' ascii_lib (str ''https://www.facebook.com/p/1'') (serving bare_title_page)) =
     Inl KeyError \<and>
   fst (extract_content_with_retry ascii_lib (str ''https://www.facebook.com/p/1'') 3
          (serving bare_title_page)) = Inl KeyError"
proof -
  have 1: "fst (extract' ascii_lib (str ''https://www.facebook.com/p/1'') (serving bare_title_page)) =
     Inl KeyError"
    by code_simp
  then have "fst (extract_content_with_retry ascii_lib (str ''https://www.facebook.com/p/1'') 3
          (serving bare_title_page)) = Inl KeyError"
    unfolding extract_content_with_retry_def extract_with_retry_def
    by (subst retry_loop.simps) simp
  with 1 show ?thesis by simp
qed

section \<open>The Twitter fallback\<close>

text \<open>
  When both requests fail the strategy returns the fallback record. Its author is the text
  between \<open>twitter.com/\<close> and the next \<open>/\<close>, and empty when the URL does not contain
  \<open>twitter.com/\<close>.
\<close>

lemma twitter_fallback_on_total_failure:
  assumes "net w (requests w) (str ''https://publish.twitter.com/oembed?url='' @ url_quote lib url)
             = RequestException"
    and "net w (Suc (requests w)) url = RequestException"
  shows "extract_twitter lib url w =
           (Inr (twitter_fallback lib url), w\<lparr>requests := requests w + 2\<rparr>)"
  using assms
  by (simp add: extract_twitter_def session_get_def oembed_result_def make_request_def)

lemma url_author_twitter:
  assumes "handle \<noteq> []" and "47 \<notin> set handle"
  shows "url_author (str ''https://twitter.com/'' @ handle @ 47 # rest) = handle"
proof -
  have "takeWhile (\<lambda>c. c \<noteq> 47) (handle @ 47 # rest) = handle"
    using assms(2) by (auto simp: takeWhile_tail)
  then show ?thesis using assms(1) by (simp add: url_author_def str_def)
qed

lemma search_group_absent: "\<not> contains s p \<Longrightarrow> search_group p ok s = None"
  by (induction s) auto

lemma url_author_absent: "\<not> contains url (str ''twitter.com/'') \<Longrightarrow> url_author url = []"
  by (simp add: url_author_def search_group_absent)


text \<open>
  C6 does not hold on the code for \<open>x.com\<close> URLs: the fallback pattern names \<open>twitter.com\<close>
  only, so the handle in the path is not found; on the same path under \<open>twitter.com\<close> it is.
\<close>

theorem x_url_fallback_has_no_author:
  "fst (extract' ascii_lib (str ''https://x.com/jack/status/1'') offline) =
     Inr [(''success'', PBool True), (''platform'', PStr (str ''twitter'')),
          (''url'', PStr (str ''https://x.com/jack/status/1'')),
          (''title'', PStr (str ''Twitter Post'')),
          (''caption'', PStr (str ''Twitter Post '' @ [8212] @ str '' click to view'')),
          (''image_url'', PStr []), (''author'', PStr []),
          (''media_type'', PStr (str ''tweet''))] \<and>
   fst (extract' ascii_lib (str ''https://twitter.com/jack/status/1'') offline) =
     Inr [(''success'', PBool True), (''platform'', PStr (str ''twitter'')),
          (''url'', PStr (str ''https://twitter.com/jack/status/1'')),
          (''title'', PStr (str ''Tweet by jack'')),
          (''caption'', PStr (str ''Tweet by jack '' @ [8212] @ str '' click to view'')),
          (''image_url'', PStr []), (''author'', PStr (str ''jack'')),
          (''media_type'', PStr (str ''tweet''))]"
  by code_simp


end
